theory Spec2Isabelle
  imports Main "HOL-Library.Word"
begin

unbundle bit_operations_syntax

section \<open>Python values shared by both cores\<close>

text \<open>
  Python integers are unbounded: \<^typ>\<open>int\<close>. Indices into lists that the code
  only ever counts up from zero (\<open>pathi\<close>, \<open>basketi\<close>) are \<^typ>\<open>nat\<close>, and every
  read through them checks the bound as Python does. A raise is a value of \<open>error\<close>
  on the left of a sum; \<open>bindE\<close> sequences two computations and stops at the first
  raise.
\<close>

type_synonym dtype = string

datatype error =
    AssertionError
  | IndexError
  | KeyError string
  | AttributeError string
  | TypeError string
  | UnpackError
  | MinOfEmpty
  | BranchNotFound string string string
  | DtypeChanged string dtype string dtype string
  | CounterNotFound string string string string
  | CounterChanged string string string string string
  | CannotSatisfy string int string
  | IOFault string
  | UnboundLocalError string
  | NotModelled

definition bindE :: "'e + 'a \<Rightarrow> ('a \<Rightarrow> 'e + 'b) \<Rightarrow> 'e + 'b" where
  "bindE m f = (case m of Inl e \<Rightarrow> Inl e | Inr x \<Rightarrow> f x)"

fun mapE :: "('a \<Rightarrow> 'e + 'b) \<Rightarrow> 'a list \<Rightarrow> 'e + 'b list" where
  "mapE f [] = Inr []"
| "mapE f (x # xs) = bindE (f x) (\<lambda>y. bindE (mapE f xs) (\<lambda>ys. Inr (y # ys)))"

text \<open>
  A Python \<open>dict\<close> built from a sequence of pairs: a key keeps the position of its
  first occurrence and the value of its last.
\<close>

fun dict_set :: "('k \<times> 'v) list \<Rightarrow> 'k \<Rightarrow> 'v \<Rightarrow> ('k \<times> 'v) list" where
  "dict_set [] k v = [(k, v)]"
| "dict_set ((k', v') # kvs) k v =
     (if k' = k then (k, v) # kvs else (k', v') # dict_set kvs k v)"

definition dict_of :: "('k \<times> 'v) list \<Rightarrow> ('k \<times> 'v) list" where
  "dict_of kvs = foldl (\<lambda>d (k, v). dict_set d k v) [] kvs"

definition dict_del :: "('k \<times> 'v) list \<Rightarrow> 'k \<Rightarrow> ('k \<times> 'v) list" where
  "dict_del d k = filter (\<lambda>kv. fst kv \<noteq> k) d"

definition keys :: "('k \<times> 'v) list \<Rightarrow> 'k list" where
  "keys d = map fst d"

section \<open>Partition planner: data model (src/uproot/partition.py)\<close>

text \<open>
  \<open>BasketData\<close>, \<open>Range\<close>, \<open>Partition\<close> and \<open>PartitionSet\<close> are the four classes of
  the module. \<open>fill\<close> attaches a private attribute \<open>_pathi\<close> to the basket data and
  ranges it creates; it is the field \<open>bd_pathi\<close> (always set) and \<open>pathi\<close> (unset on a
  range built by \<open>Range.fromJson\<close>).
\<close>

record BasketData =
  bd_path :: string
  bd_branchname :: string
  bd_dtype :: dtype
  bd_itemdims :: "int list"
  bd_entrystart :: int
  bd_entryend :: int
  bd_numbytes :: int
  bd_pathi :: nat

definition BasketData_numentries :: "BasketData \<Rightarrow> int" where
  "BasketData_numentries x = bd_entryend x - bd_entrystart x"

record Range =
  path :: string
  entrystart :: int
  entryend :: int
  pathi :: "nat option"

definition Range_numentries :: "Range \<Rightarrow> int" where
  "Range_numentries r = entryend r - entrystart r"

record Partition =
  index :: int
  ranges :: "Range list"

definition Partition_numentries :: "Partition \<Rightarrow> int" where
  "Partition_numentries p = sum_list (map Range_numentries (ranges p))"

record PartitionSet =
  treepath :: string
  branchdtypes :: "(string \<times> dtype) list"
  branchcounters :: "(string \<times> string) list"
  numpartitions :: int
  numentries :: int
  partitions :: "Partition list"

text \<open>
  The constructor takes its partitions as \<open>*partitions\<close>. \<open>fill\<close> unpacks a list of
  \<open>Partition\<close> objects into it; \<open>fromJson\<close> passes one list object as a single
  positional argument. An argument is therefore either a partition or a list.
  On a list, \<open>x.index\<close> is the bound method \<open>list.index\<close> (no integer), and
  \<open>x.numentries\<close> and \<open>x.ranges\<close> raise \<open>AttributeError\<close>.
\<close>

datatype pyarg = PartitionArg Partition | ListArg "Partition list"

fun arg_index :: "pyarg \<Rightarrow> int option" where
  "arg_index (PartitionArg p) = Some (index p)"
| "arg_index (ListArg ps) = None"

fun arg_numentries :: "pyarg \<Rightarrow> error + int" where
  "arg_numentries (PartitionArg p) = Inr (Partition_numentries p)"
| "arg_numentries (ListArg ps) = Inl (AttributeError ''numentries'')"

fun arg_partition :: "pyarg \<Rightarrow> error + Partition" where
  "arg_partition (PartitionArg p) = Inr p"
| "arg_partition (ListArg ps) = Inl (AttributeError ''ranges'')"

text \<open>
  The constructor, lines 125 to 147. Its first check, that \<open>branchdtypes\<close> is a
  \<open>dict\<close>, cannot fail here: the argument has the type of a dictionary. The
  three assertions follow in the order of the source.

  Lines 132 to 140: the walk over all ranges with \<open>lastpath\<close> and \<open>last\<close>. \<open>last\<close> is
  read only when \<open>lastpath\<close> equals the path of the range, so never before it is
  assigned.
\<close>

fun ranges_chain :: "string option \<Rightarrow> int \<Rightarrow> Range list \<Rightarrow> bool" where
  "ranges_chain lastpath lastend [] = True"
| "ranges_chain lastpath lastend (r # rs) =
     ((if lastpath \<noteq> Some (path r) then entrystart r = 0 else entrystart r = lastend)
      \<and> ranges_chain (Some (path r)) (entryend r) rs)"

definition PartitionSet_init ::
  "string \<Rightarrow> (string \<times> dtype) list \<Rightarrow> (string \<times> string) list \<Rightarrow> int \<Rightarrow> int \<Rightarrow> pyarg list
     \<Rightarrow> error + PartitionSet" where
  "PartitionSet_init tp bdt bc np ne args =
     (if np \<noteq> int (length args) then Inl AssertionError
      else if map arg_index args \<noteq> map (\<lambda>i. Some (int i)) [0..<nat np] then Inl AssertionError
      else bindE (mapE arg_numentries args) (\<lambda>ns.
        if ne \<noteq> sum_list ns then Inl AssertionError
        else bindE (mapE arg_partition args) (\<lambda>ps.
          if \<not> ranges_chain None 0 (concat (map ranges ps)) then Inl AssertionError
          else Inr \<lparr>treepath = tp, branchdtypes = bdt, branchcounters = bc,
                    numpartitions = np, numentries = ne, partitions = ps\<rparr>)))"

subsection \<open>JSON form\<close>

text \<open>
  \<open>toJson\<close> builds Python dictionaries, lists, strings and integers; \<open>fromJson\<close>
  reads them back with subscripts and iteration. The model of \<open>fromJson\<close> is typed:
  where the Python would store a value of another type than \<open>toJson\<close> writes (a
  tree path that is a number, say) the model answers \<open>NotModelled\<close>.
\<close>

datatype json = JStr string | JInt int | JList "json list" | JDict "(string \<times> json) list"

definition Range_toJson :: "Range \<Rightarrow> json" where
  "Range_toJson r =
     JDict [(''path'', JStr (path r)), (''entrystart'', JInt (entrystart r)),
            (''entryend'', JInt (entryend r))]"

definition Partition_toJson :: "Partition \<Rightarrow> json" where
  "Partition_toJson p =
     JDict [(''index'', JInt (index p)), (''ranges'', JList (map Range_toJson (ranges p)))]"

definition PartitionSet_toJson :: "(dtype \<Rightarrow> string) \<Rightarrow> PartitionSet \<Rightarrow> json" where
  "PartitionSet_toJson dtype_str ps =
     JDict [(''treepath'', JStr (treepath ps)),
            (''branchdtypes'', JDict (map (\<lambda>(b, d). (b, JStr (dtype_str d))) (branchdtypes ps))),
            (''branchcounters'', JDict (map (\<lambda>(k, v). (k, JStr v)) (branchcounters ps))),
            (''numpartitions'', JInt (numpartitions ps)),
            (''numentries'', JInt (numentries ps)),
            (''partitions'', JList (map Partition_toJson (partitions ps)))]"

text \<open>\<open>obj[key]\<close> with a string key, and iteration over a value (\<open>for x in obj\<close>).\<close>

fun json_get :: "json \<Rightarrow> string \<Rightarrow> error + json" where
  "json_get (JDict kvs) k = (case map_of kvs k of None \<Rightarrow> Inl (KeyError k) | Some v \<Rightarrow> Inr v)"
| "json_get (JList xs) k = Inl (TypeError ''list indices must be integers'')"
| "json_get (JStr s) k = Inl (TypeError ''string indices must be integers'')"
| "json_get (JInt n) k = Inl (TypeError ''int is not subscriptable'')"

fun py_iter :: "json \<Rightarrow> error + json list" where
  "py_iter (JDict kvs) = Inr (map (\<lambda>kv. JStr (fst kv)) kvs)"
| "py_iter (JList xs) = Inr xs"
| "py_iter (JStr s) = Inr (map (\<lambda>c. JStr [c]) s)"
| "py_iter (JInt n) = Inl (TypeError ''int is not iterable'')"

fun as_str :: "json \<Rightarrow> error + string" where
  "as_str (JStr s) = Inr s"
| "as_str _ = Inl NotModelled"

fun as_int :: "json \<Rightarrow> error + int" where
  "as_int (JInt n) = Inr n"
| "as_int _ = Inl NotModelled"

fun as_str_dict :: "json \<Rightarrow> error + (string \<times> string) list" where
  "as_str_dict (JDict kvs) = mapE (\<lambda>(k, v). bindE (as_str v) (\<lambda>s. Inr (k, s))) kvs"
| "as_str_dict _ = Inl NotModelled"

definition Range_fromJson :: "json \<Rightarrow> error + Range" where
  "Range_fromJson obj =
     bindE (json_get obj ''path'') (\<lambda>p. bindE (as_str p) (\<lambda>p.
     bindE (json_get obj ''entrystart'') (\<lambda>s. bindE (as_int s) (\<lambda>s.
     bindE (json_get obj ''entryend'') (\<lambda>e. bindE (as_int e) (\<lambda>e.
       Inr \<lparr>path = p, entrystart = s, entryend = e, pathi = None\<rparr>))))))"

definition Partition_fromJson :: "json \<Rightarrow> error + Partition" where
  "Partition_fromJson obj =
     bindE (json_get obj ''index'') (\<lambda>i. bindE (as_int i) (\<lambda>i.
     bindE (json_get obj ''ranges'') (\<lambda>rs. bindE (py_iter rs) (\<lambda>rs.
     bindE (mapE Range_fromJson rs) (\<lambda>rs.
       Inr \<lparr>index = i, ranges = rs\<rparr>)))))"

text \<open>
  Line 163, \<open>dict((b, numpy.dtype(d)) for b, d in obj["branchdtypes"])\<close>: the loop
  iterates over the value itself (for a dictionary: over its keys) and unpacks each
  element into exactly two values. \<open>numpy.dtype\<close> is the parameter \<open>np_dtype\<close>.
\<close>

definition unpack2 :: "json \<Rightarrow> error + json \<times> json" where
  "unpack2 x = bindE (py_iter x) (\<lambda>ys. case ys of [b, d] \<Rightarrow> Inr (b, d) | _ \<Rightarrow> Inl UnpackError)"

fun as_key :: "json \<Rightarrow> error + string" where
  "as_key (JStr s) = Inr s"
| "as_key (JInt n) = Inl NotModelled"
| "as_key (JList xs) = Inl (TypeError ''unhashable type: list'')"
| "as_key (JDict kvs) = Inl (TypeError ''unhashable type: dict'')"

definition dtype_pairs :: "(json \<Rightarrow> error + dtype) \<Rightarrow> json \<Rightarrow> error + (string \<times> dtype) list" where
  "dtype_pairs np_dtype v =
     bindE (py_iter v) (\<lambda>xs.
     bindE (mapE (\<lambda>x. bindE (unpack2 x) (\<lambda>(b, d). bindE (np_dtype d) (\<lambda>t.
                        bindE (as_key b) (\<lambda>k. Inr (k, t))))) xs) (\<lambda>kvs.
       Inr (dict_of kvs)))"

definition PartitionSet_fromJson :: "(json \<Rightarrow> error + dtype) \<Rightarrow> json \<Rightarrow> error + PartitionSet" where
  "PartitionSet_fromJson np_dtype obj =
     bindE (json_get obj ''treepath'') (\<lambda>tp. bindE (as_str tp) (\<lambda>tp.
     bindE (json_get obj ''branchdtypes'') (\<lambda>bd. bindE (dtype_pairs np_dtype bd) (\<lambda>bd.
     bindE (json_get obj ''branchcounters'') (\<lambda>bc. bindE (as_str_dict bc) (\<lambda>bc.
     bindE (json_get obj ''numpartitions'') (\<lambda>np.
     bindE (json_get obj ''numentries'') (\<lambda>ne.
     bindE (json_get obj ''partitions'') (\<lambda>ps. bindE (py_iter ps) (\<lambda>ps.
     bindE (mapE Partition_fromJson ps) (\<lambda>ps.
       case (np, ne) of
         (JInt np, JInt ne) \<Rightarrow> PartitionSet_init tp bd bc np ne [ListArg ps]
       | _ \<Rightarrow> Inl AssertionError)))))))))))"

text \<open>\<open>json.dumps\<close> and \<open>json.loads\<close> are parameters.\<close>

definition PartitionSet_toJsonString ::
  "(json \<Rightarrow> string) \<Rightarrow> (dtype \<Rightarrow> string) \<Rightarrow> PartitionSet \<Rightarrow> string" where
  "PartitionSet_toJsonString dumps dtype_str ps = dumps (PartitionSet_toJson dtype_str ps)"

definition PartitionSet_fromJsonString ::
  "(string \<Rightarrow> error + json) \<Rightarrow> (json \<Rightarrow> error + dtype) \<Rightarrow> string \<Rightarrow> error + PartitionSet" where
  "PartitionSet_fromJsonString loads np_dtype s =
     bindE (loads s) (PartitionSet_fromJson np_dtype)"

section \<open>Partition planner: \<open>PartitionSet.fill\<close>\<close>

subsection \<open>The tree reader\<close>

text \<open>
  Modelled from the spec: the tree reader (\<open>uproot.open\<close>, \<open>uproot.tree\<close>) is not
  among the sources. What \<open>fill\<close> reads from it (spec, section 6) is a record: a tree has \<open>numentries\<close>, \<open>allbranches\<close> and the \<open>counter\<close> relation (here
  already as pairs of the counted branch and the name of its counter branch); a
  branch has a name, a \<open>dtype\<close> (if any), \<open>itemdims\<close>, and per basket its first entry,
  its number of entries and its number of bytes. \<open>numbaskets\<close> is the length of that
  table and a read beyond it raises.
\<close>

record branch =
  bname :: string
  bdtype :: "dtype option"
  itemdims :: "int list"
  baskets :: "(int \<times> int \<times> int) list"

record tree =
  tree_numentries :: int
  allbranches :: "branch list"
  counter :: "(string \<times> string) list"

definition numbaskets :: "branch \<Rightarrow> nat" where
  "numbaskets br = length (baskets br)"

definition basketstart :: "branch \<Rightarrow> nat \<Rightarrow> error + int" where
  "basketstart br i = (if i < length (baskets br) then Inr (fst (baskets br ! i)) else Inl IndexError)"

definition basketentries :: "branch \<Rightarrow> nat \<Rightarrow> error + int" where
  "basketentries br i =
     (if i < length (baskets br) then Inr (fst (snd (baskets br ! i))) else Inl IndexError)"

definition basketbytes :: "branch \<Rightarrow> nat \<Rightarrow> error + int" where
  "basketbytes br i =
     (if i < length (baskets br) then Inr (snd (snd (baskets br ! i))) else Inl IndexError)"

text \<open>\<open>tree[branchname]\<close>.\<close>

definition lookup_branch :: "tree \<Rightarrow> string \<Rightarrow> error + branch" where
  "lookup_branch t b =
     (case find (\<lambda>br. bname br = b) (allbranches t) of
        None \<Rightarrow> Inl (KeyError b)
      | Some br \<Rightarrow> Inr br)"

subsection \<open>Arguments and state of \<open>fill\<close>\<close>

text \<open>
  \<open>paths\<close> is the list of paths after lines 226 to 240 have expanded the path
  expression (glob expansion and URL parsing are library calls). \<open>uopen p\<close> stands
  for \<open>uproot.open(p, memmap=memmap)[treepath]\<close>, \<open>select\<close> for
  \<open>TTree._normalizeselection(branchdtypes, \<cdot>)\<close>; \<open>by_choice\<close> and \<open>under\<close> are the
  arguments \<open>by\<close> and \<open>under\<close>.
\<close>

record fill_env =
  paths :: "string list"
  fe_treepath :: string
  uopen :: "string \<Rightarrow> error + tree"
  select :: "branch list \<Rightarrow> (branch \<times> dtype) list"
  by_choice :: "Partition list \<Rightarrow> error + Partition"
  under :: "BasketData list \<Rightarrow> bool"

text \<open>The two defaults of the signature (line 177).\<close>

definition branchdtypes_default :: "branch list \<Rightarrow> (branch \<times> dtype) list" where
  "branchdtypes_default bs =
     concat (map (\<lambda>b. case bdtype b of None \<Rightarrow> [] | Some d \<Rightarrow> [(b, d)]) bs)"

fun by_default :: "Partition list \<Rightarrow> error + Partition" where
  "by_default [] = Inl MinOfEmpty"
| "by_default (c # cs) =
     Inr (foldl (\<lambda>best x. if Partition_numentries x < Partition_numentries best then x else best)
            c cs)"

definition under_default :: "BasketData list \<Rightarrow> bool" where
  "under_default bs = (sum_list (map bd_numbytes bs) < 10 * 1024 ^ 2)"

text \<open>
  The local variables of \<open>fill\<close> that live across iterations: the cache \<open>trees\<close>, the
  list \<open>partitions\<close>, the counter \<open>partitioni\<close>, and \<open>basketi\<close>, which Python keeps from
  one branch to the next (the \<open>for basketi in range(...)\<close> of line 285 leaves it as
  it was when the branch has no basket). \<open>basketi\<close> is assigned at line 278 before
  any read, so its initial value is never seen.
\<close>

record fill_state =
  trees :: "(nat \<times> tree) list"
  fs_partitions :: "Partition list"
  partitioni :: int
  basketi :: nat

subsection \<open>Opening a file and validating its schema (lines 246 to 268)\<close>

text \<open>
  The loops of lines 251 and 260 run over a Python \<open>set\<close>, whose order is not
  specified. \<open>check_selection\<close> and \<open>check_counters\<close> take the keys in the order they
  are visited; \<open>union_keys\<close> is the order the executable model uses.
\<close>

fun check_selection ::
  "string \<Rightarrow> string \<Rightarrow> (string \<times> dtype) list \<Rightarrow> string list \<Rightarrow> (string \<times> dtype) list
     \<Rightarrow> error + (string \<times> dtype) list" where
  "check_selection p pprev toget [] newtoget = Inr newtoget"
| "check_selection p pprev toget (key # ks) newtoget =
     (case map_of newtoget key of
        None \<Rightarrow> Inl (BranchNotFound key p pprev)
      | Some dnew \<Rightarrow>
          (case map_of toget key of
             None \<Rightarrow> check_selection p pprev toget ks (dict_del newtoget key)
           | Some dold \<Rightarrow>
               if dnew \<noteq> dold then Inl (DtypeChanged key dnew p dold pprev)
               else check_selection p pprev toget ks newtoget))"

fun check_counters ::
  "string \<Rightarrow> string \<Rightarrow> (string \<times> string) list \<Rightarrow> string list \<Rightarrow> (string \<times> string) list
     \<Rightarrow> error + (string \<times> string) list" where
  "check_counters p pprev counters [] newcounters = Inr newcounters"
| "check_counters p pprev counters (key # ks) newcounters =
     (case map_of newcounters key of
        None \<Rightarrow>
          (case map_of counters key of
             None \<Rightarrow> Inl (KeyError key)
           | Some c \<Rightarrow> Inl (CounterNotFound key p c pprev))
      | Some cnew \<Rightarrow>
          (case map_of counters key of
             None \<Rightarrow> check_counters p pprev counters ks (dict_del newcounters key)
           | Some cold \<Rightarrow>
               if cnew \<noteq> cold then Inl (CounterChanged key cnew p cold pprev)
               else check_counters p pprev counters ks newcounters))"

definition union_keys :: "('k \<times> 'v) list \<Rightarrow> ('k \<times> 'w) list \<Rightarrow> 'k list" where
  "union_keys a b = remdups (keys a @ keys b)"

text \<open>\<open>paths[i - 1]\<close>: for \<open>i = 0\<close> the index is \<open>-1\<close>, the last path.\<close>

definition prev_path :: "string list \<Rightarrow> nat \<Rightarrow> string" where
  "prev_path ps i = (if i = 0 then last ps else ps ! (i - 1))"

definition selection_of :: "fill_env \<Rightarrow> tree \<Rightarrow> (string \<times> dtype) list" where
  "selection_of env t = dict_of (map (\<lambda>(b, d). (bname b, d)) (select env (allbranches t)))"

definition tree ::
  "fill_env \<Rightarrow> (string \<times> dtype) list \<Rightarrow> (string \<times> string) list \<Rightarrow> (nat \<times> tree) list \<Rightarrow> nat
     \<Rightarrow> error + tree \<times> (nat \<times> tree) list" where
  "tree env toget counters trs i =
     (case map_of trs i of
        Some t \<Rightarrow> Inr (t, trs)
      | None \<Rightarrow>
          if length (paths env) \<le> i then Inl IndexError
          else bindE (uopen env (paths env ! i)) (\<lambda>t.
            let trs' = dict_set trs i t;
                newtoget = selection_of env t
            in bindE (check_selection (paths env ! i) (prev_path (paths env) i) toget
                        (union_keys toget newtoget) newtoget) (\<lambda>_.
               let newcounters = dict_of (counter t)
               in bindE (check_counters (paths env ! i) (prev_path (paths env) i) counters
                           (union_keys counters newcounters) newcounters) (\<lambda>_.
                  Inr (t, trs')))))"

subsection \<open>Growing one branch (lines 275 to 336)\<close>

text \<open>Lines 285 to 287: the basket in which the previous partition ended.\<close>

fun seek_basket :: "branch \<Rightarrow> int \<Rightarrow> nat list \<Rightarrow> nat \<Rightarrow> error + nat" where
  "seek_basket br entryi [] bi = Inr bi"
| "seek_basket br entryi (i # rest) bi =
     (if i + 1 = numbaskets br then Inr i
      else case basketstart br (i + 1) of
             Inl e \<Rightarrow> Inl e
           | Inr s \<Rightarrow> if s > entryi then Inr i else seek_basket br entryi rest i)"

definition last_range :: "Partition \<Rightarrow> error + Range" where
  "last_range p = (if ranges p = [] then Inl IndexError else Inr (last (ranges p)))"

definition range_pathi :: "Range \<Rightarrow> error + nat" where
  "range_pathi r = (case pathi r of None \<Rightarrow> Inl (AttributeError ''_pathi'') | Some k \<Rightarrow> Inr k)"

definition start_branch ::
  "fill_env \<Rightarrow> (string \<times> dtype) list \<Rightarrow> (string \<times> string) list \<Rightarrow> fill_state \<Rightarrow> string
     \<Rightarrow> error + nat \<times> nat \<times> int \<times> branch \<times> (nat \<times> tree) list" where
  "start_branch env toget counters st branchname =
     (if fs_partitions st = [] then
        bindE (tree env toget counters (trees st) 0) (\<lambda>(t, trs).
        bindE (lookup_branch t branchname) (\<lambda>br.
          Inr (0, 0, 0, br, trs)))
      else
        bindE (last_range (last (fs_partitions st))) (\<lambda>r.
        bindE (range_pathi r) (\<lambda>pi.
        bindE (tree env toget counters (trees st) pi) (\<lambda>(t, trs).
        bindE (lookup_branch t branchname) (\<lambda>br.
        bindE (seek_basket br (entryend r) [0..<numbaskets br] (basketi st)) (\<lambda>bi.
          Inr (pi, bi, entryend r, br, trs)))))))"

text \<open>
  Lines 300 to 310: one \<open>BasketData\<close> is appended and every element is checked to
  be non-empty. The basket metadata is read from \<open>branch\<close>.
\<close>

definition append_basket ::
  "fill_env \<Rightarrow> string \<Rightarrow> dtype \<Rightarrow> branch \<Rightarrow> nat \<Rightarrow> nat \<Rightarrow> BasketData list
     \<Rightarrow> error + BasketData list" where
  "append_basket env branchname dt br pi bi basketdata =
     (if length (paths env) \<le> pi then Inl IndexError
      else bindE (basketstart br bi) (\<lambda>s.
           bindE (basketentries br bi) (\<lambda>n.
           bindE (basketbytes br bi) (\<lambda>b.
             let basketdata' = basketdata @
                   [\<lparr>bd_path = paths env ! pi, bd_branchname = branchname, bd_dtype = dt,
                     bd_itemdims = itemdims br, bd_entrystart = s, bd_entryend = s + n,
                     bd_numbytes = b, bd_pathi = pi\<rparr>]
             in if list_ex (\<lambda>x. bd_entrystart x = bd_entryend x) basketdata'
                then Inl AssertionError
                else Inr basketdata'))))"

text \<open>
  Lines 291 to 316, the \<open>while True\<close> loop. When the baskets of \<open>branch\<close> are
  used up the loop moves to the next path; line 298 opens that file and binds its
  branch to the name \<open>basket\<close>, which nothing reads, so \<open>branch\<close> stays the branch
  the loop started with. The result is the accumulated list with the final
  \<open>pathi\<close>, \<open>basketi\<close> and tree cache.
\<close>

function accumulate ::
  "fill_env \<Rightarrow> (string \<times> dtype) list \<Rightarrow> (string \<times> string) list \<Rightarrow> string \<Rightarrow> dtype \<Rightarrow> branch
     \<Rightarrow> (nat \<times> tree) list \<Rightarrow> nat \<Rightarrow> nat \<Rightarrow> BasketData list
     \<Rightarrow> error + BasketData list \<times> nat \<times> nat \<times> (nat \<times> tree) list" where
  "accumulate env toget counters branchname dt br trs pi bi basketdata =
     (if numbaskets br \<le> bi then
        (if length (paths env) \<le> pi + 1 then Inr (basketdata, pi + 1, 0, trs)
         else case tree env toget counters trs (pi + 1) of
                Inl e \<Rightarrow> Inl e
              | Inr (t, trs') \<Rightarrow>
                  (case lookup_branch t branchname of
                     Inl e \<Rightarrow> Inl e
                   | Inr basket \<Rightarrow>
                       (case append_basket env branchname dt br (pi + 1) 0 basketdata of
                          Inl e \<Rightarrow> Inl e
                        | Inr basketdata' \<Rightarrow>
                            if \<not> under env basketdata'
                            then Inr (butlast basketdata', pi + 1, 0, trs')
                            else accumulate env toget counters branchname dt br trs'
                                   (pi + 1) (0 + 1) basketdata')))
      else
        (case append_basket env branchname dt br pi bi basketdata of
           Inl e \<Rightarrow> Inl e
         | Inr basketdata' \<Rightarrow>
             if \<not> under env basketdata'
             then Inr (butlast basketdata', pi, bi, trs)
             else accumulate env toget counters branchname dt br trs pi (bi + 1) basketdata'))"
  by pat_completeness auto
termination
  by (relation "measures [\<lambda>(env, toget, counters, branchname, dt, br, trs, pi, bi, basketdata).
                             length (paths env) - pi,
                          \<lambda>(env, toget, counters, branchname, dt, br, trs, pi, bi, basketdata).
                             numbaskets br - bi]")
     auto

text \<open>Lines 322 to 328: adjacent baskets of one file become one range.\<close>

fun make_ranges :: "Range list \<Rightarrow> BasketData list \<Rightarrow> Range list" where
  "make_ranges rs [] = rs"
| "make_ranges rs (x # xs) =
     (if rs = [] \<or> pathi (last rs) \<noteq> Some (bd_pathi x)
      then make_ranges (rs @ [\<lparr>path = bd_path x, entrystart = bd_entrystart x,
                                entryend = bd_entryend x, pathi = Some (bd_pathi x)\<rparr>]) xs
      else make_ranges (butlast rs @ [(last rs)\<lparr>entryend := bd_entryend x\<rparr>]) xs)"

text \<open>
  Lines 330 to 334: the first range starts where the previous partition ended, or
  at 0 in a new file. \<open>rs\<close> is not empty here.
\<close>

definition align_first :: "Partition list \<Rightarrow> Range list \<Rightarrow> Range list" where
  "align_first parts rs =
     (if parts = [] then rs
      else if pathi (last (ranges (last parts))) = pathi (hd rs)
           then (hd rs)\<lparr>entrystart := entryend (last (ranges (last parts)))\<rparr> # tl rs
           else (hd rs)\<lparr>entrystart := 0\<rparr> # tl rs)"

definition candidate ::
  "fill_env \<Rightarrow> (string \<times> dtype) list \<Rightarrow> (string \<times> string) list \<Rightarrow> fill_state \<Rightarrow> string \<times> dtype
     \<Rightarrow> error + Partition \<times> fill_state" where
  "candidate env toget counters st bd =
     (case bd of (branchname, dt) \<Rightarrow>
        bindE (start_branch env toget counters st branchname) (\<lambda>(pi, bi, entryi, br, trs).
        bindE (accumulate env toget counters branchname dt br trs pi bi []) (\<lambda>(basketdata, pi', bi', trs').
          if basketdata = [] then
            (if pi' < length (paths env) then Inl (CannotSatisfy branchname entryi (paths env ! pi'))
             else Inl IndexError)
          else
            let rs = align_first (fs_partitions st) (make_ranges [] basketdata)
            in Inr (\<lparr>index = partitioni st, ranges = filter (\<lambda>r. entrystart r \<noteq> entryend r) rs\<rparr>,
                    st\<lparr>trees := trs', basketi := bi'\<rparr>))))"

subsection \<open>The partitioning loop (lines 270 to 347)\<close>

fun branch_loop ::
  "fill_env \<Rightarrow> (string \<times> dtype) list \<Rightarrow> (string \<times> string) list \<Rightarrow> fill_state
     \<Rightarrow> (string \<times> dtype) list \<Rightarrow> Partition list \<Rightarrow> error + Partition list \<times> fill_state" where
  "branch_loop env toget counters st [] possiblenext = Inr (possiblenext, st)"
| "branch_loop env toget counters st (bd # rest) possiblenext =
     bindE (candidate env toget counters st bd) (\<lambda>(p, st').
       branch_loop env toget counters st' rest (possiblenext @ [p]))"

text \<open>
  Lines 342 and 343. The generator reads \<open>partitions[-1].ranges[0]._pathi\<close> once per
  key of \<open>trees\<close>, so with no open tree it is not read at all.
\<close>

definition drop_trees :: "(nat \<times> tree) list \<Rightarrow> Partition \<Rightarrow> error + (nat \<times> tree) list" where
  "drop_trees trs p =
     (if trs = [] then Inr []
      else case ranges p of
             [] \<Rightarrow> Inl IndexError
           | r # _ \<Rightarrow> bindE (range_pathi r) (\<lambda>k. Inr (filter (\<lambda>(i, t). \<not> i < k) trs)))"

definition fill_step ::
  "fill_env \<Rightarrow> (string \<times> dtype) list \<Rightarrow> (string \<times> string) list \<Rightarrow> fill_state
     \<Rightarrow> error + fill_state" where
  "fill_step env toget counters st =
     bindE (branch_loop env toget counters st toget []) (\<lambda>(possiblenext, st1).
     bindE (by_choice env possiblenext) (\<lambda>p.
     bindE (drop_trees (trees st1) p) (\<lambda>trs.
       Inr (st1\<lparr>trees := trs, fs_partitions := fs_partitions st1 @ [p],
                partitioni := partitioni st1 + 1\<rparr>))))"

text \<open>Line 272, the condition of the \<open>while\<close>, with the short circuit of \<open>or\<close>.\<close>

definition loop_cond ::
  "fill_env \<Rightarrow> (string \<times> dtype) list \<Rightarrow> (string \<times> string) list \<Rightarrow> fill_state
     \<Rightarrow> error + bool \<times> (nat \<times> tree) list" where
  "loop_cond env toget counters st =
     (if fs_partitions st = [] then Inr (True, trees st)
      else bindE (last_range (last (fs_partitions st))) (\<lambda>r.
        if paths env = [] then Inl IndexError
        else if path r \<noteq> last (paths env) then Inr (True, trees st)
        else bindE (tree env toget counters (trees st) (length (paths env) - 1)) (\<lambda>(t, trs).
          Inr (entryend r < tree_numentries t, trs))))"

text \<open>
  The \<open>while\<close> loop need not terminate (basket tables that send the entry counter
  back and forth keep it running), so it runs on fuel: \<open>None\<close> is "still running
  after \<open>n\<close> iterations".
\<close>

fun fill_loop ::
  "nat \<Rightarrow> fill_env \<Rightarrow> (string \<times> dtype) list \<Rightarrow> (string \<times> string) list \<Rightarrow> fill_state
     \<Rightarrow> (error + PartitionSet) option" where
  "fill_loop 0 env toget counters st = None"
| "fill_loop (Suc n) env toget counters st =
     (case loop_cond env toget counters st of
        Inl e \<Rightarrow> Some (Inl e)
      | Inr (go, trs) \<Rightarrow>
          if go then
            (case fill_step env toget counters (st\<lparr>trees := trs\<rparr>) of
               Inl e \<Rightarrow> Some (Inl e)
             | Inr st' \<Rightarrow> fill_loop n env toget counters st')
          else
            Some (PartitionSet_init (fe_treepath env) toget counters
                    (int (length (fs_partitions st)))
                    (sum_list (map Partition_numentries (fs_partitions st)))
                    (map PartitionArg (fs_partitions st))))"

definition fill :: "nat \<Rightarrow> fill_env \<Rightarrow> (error + PartitionSet) option" where
  "fill fuel env =
     (case paths env of
        [] \<Rightarrow> Some (Inl IndexError)
      | p0 # _ \<Rightarrow>
          (case uopen env p0 of
             Inl e \<Rightarrow> Some (Inl e)
           | Inr t0 \<Rightarrow>
               fill_loop fuel env (selection_of env t0) (dict_of (counter t0))
                 \<lparr>trees = [(0, t0)], fs_partitions = [], partitioni = 0, basketi = 0\<rparr>))"

text \<open>
  The state after \<open>k\<close> completed iterations of the \<open>while\<close> loop (\<open>None\<close> when the
  loop has ended or raised before).
\<close>

fun run_steps ::
  "nat \<Rightarrow> fill_env \<Rightarrow> (string \<times> dtype) list \<Rightarrow> (string \<times> string) list \<Rightarrow> fill_state
     \<Rightarrow> fill_state option" where
  "run_steps 0 env toget counters st = Some st"
| "run_steps (Suc k) env toget counters st =
     (case loop_cond env toget counters st of
        Inl e \<Rightarrow> None
      | Inr (go, trs) \<Rightarrow>
          if go then
            (case fill_step env toget counters (st\<lparr>trees := trs\<rparr>) of
               Inl e \<Rightarrow> None
             | Inr st' \<Rightarrow> run_steps k env toget counters st')
          else None)"

text \<open>
  The error of line 319, \<open>"cannot satisfy the constraint on branch ... starting at
  entry ... in file ..."\<close>, told apart from every other error of \<open>fill\<close>.
\<close>

fun is_CannotSatisfy :: "error \<Rightarrow> bool" where
  "is_CannotSatisfy (CannotSatisfy b e p) = True"
| "is_CannotSatisfy _ = False"

subsection \<open>Example inputs\<close>

text \<open>
  Two files with one branch \<open>x\<close> of one basket each: \<open>a.root\<close> holds 100 entries
  in 400 bytes, \<open>b.root\<close> 50 entries in 200 bytes. In \<open>ex_tree_renamed\<close> the branch
  of the second file is called \<open>y\<close>.
\<close>

definition ex_branch_a :: branch where
  "ex_branch_a = \<lparr>bname = ''x'', bdtype = Some ''int32'', itemdims = [], baskets = [(0, 100, 400)]\<rparr>"

definition ex_branch_b :: branch where
  "ex_branch_b = \<lparr>bname = ''x'', bdtype = Some ''int32'', itemdims = [], baskets = [(0, 50, 200)]\<rparr>"

definition ex_tree_a :: tree where
  "ex_tree_a = \<lparr>tree_numentries = 100, allbranches = [ex_branch_a], counter = []\<rparr>"

definition ex_tree_b :: tree where
  "ex_tree_b = \<lparr>tree_numentries = 50, allbranches = [ex_branch_b], counter = []\<rparr>"

definition ex_tree_renamed :: tree where
  "ex_tree_renamed =
     \<lparr>tree_numentries = 50, allbranches = [ex_branch_b\<lparr>bname := ''y''\<rparr>], counter = []\<rparr>"

definition ex_open :: "tree \<Rightarrow> string \<Rightarrow> error + tree" where
  "ex_open tb p =
     (if p = ''a.root'' then Inr ex_tree_a
      else if p = ''b.root'' then Inr tb
      else Inl (IOFault p))"

definition ex_two_files :: fill_env where
  "ex_two_files =
     \<lparr>paths = [''a.root'', ''b.root''], fe_treepath = ''events'', uopen = ex_open ex_tree_b,
      select = branchdtypes_default, by_choice = by_default, under = under_default\<rparr>"

definition ex_renamed :: fill_env where
  "ex_renamed =
     \<lparr>paths = [''a.root'', ''b.root''], fe_treepath = ''events'', uopen = ex_open ex_tree_renamed,
      select = branchdtypes_default, by_choice = by_default, under = (\<lambda>bs. True)\<rparr>"

definition ex_tight :: fill_env where
  "ex_tight =
     \<lparr>paths = [''a.root''], fe_treepath = ''events'', uopen = ex_open ex_tree_b,
      select = branchdtypes_default, by_choice = by_default, under = (\<lambda>bs. False)\<rparr>"

section \<open>Partition iterator: \<open>iterator\<close> (lines 349 to 438)\<close>

text \<open>
  The arrays of one entry range are an ordered dictionary from branch names to
  arrays; an array is a list of values of any type \<open>'a\<close>, of which the iterator
  only uses concatenation. \<open>treedata\<close> maps a path to the list of
  \<open>(entrystart, entryend, arrays)\<close> read from that file and not yet consumed.

  The file opener and the batched \<open>tree.iterator(entries, ..., reportentries=True)\<close>
  belong to the tree reader, which is not among the sources; they are the
  parameters \<open>r_open\<close> and \<open>r_iterator\<close>.
\<close>

type_synonym 'a arrays = "(string \<times> 'a list) list"
type_synonym 'a treedata = "(string \<times> (int \<times> int \<times> 'a arrays) list) list"

record ('a, 't) reader =
  r_open :: "string \<Rightarrow> error + 't"
  r_iterator :: "'t \<Rightarrow> (int \<times> int) list \<Rightarrow> error + (int \<times> int \<times> 'a arrays) list"

datatype outputtype =
  OutDict | OutOrderedDict | OutDictSubclass | OutTuple | OutList | OutNamedtuple | OutOther

datatype 'a outvalue = DictOut "'a arrays" | SeqOut "'a list list"

text \<open>
  The generator is modelled by the list of what it has yielded. With each yielded
  value the model records the index of the partition and the \<open>treedata\<close> in which
  \<open>complete\<close> was evaluated for it.
\<close>

record 'a yielded =
  y_index :: nat
  y_treedata :: "'a treedata"
  y_value :: "'a outvalue"

record ('a, 't) it_state =
  treedata :: "'a treedata"
  oldpath :: "string option"
  cur_tree :: "'t option"
  entries :: "(int \<times> int) list"
  nextpartition :: nat
  yields :: "'a yielded list"

text \<open>Lines 375 to 379.\<close>

definition complete :: "PartitionSet \<Rightarrow> 'a treedata \<Rightarrow> nat \<Rightarrow> bool" where
  "complete ps td n =
     list_all (\<lambda>fr. case map_of td (path fr) of
                       None \<Rightarrow> False
                     | Some l \<Rightarrow> list_ex (\<lambda>(es, ee, arrs). es = entrystart fr \<and> ee = entryend fr) l)
       (ranges (partitions ps ! n))"

text \<open>
  Lines 381 to 409, the function \<open>output\<close>. \<open>append_arrays\<close> is the loop of line 386, \<open>scan\<close> the
  \<open>enumerate\<close> loop of line 384 (its variable \<open>used\<close> keeps its value from one range
  to the next), \<open>consume\<close> the loop of line 383.
\<close>

fun append_arrays :: "(string \<times> 'a list list) list \<Rightarrow> 'a arrays \<Rightarrow> error + (string \<times> 'a list list) list" where
  "append_arrays al [] = Inr al"
| "append_arrays al ((name, arr) # rest) =
     (case map_of al name of
        None \<Rightarrow> Inl (KeyError name)
      | Some xs \<Rightarrow> append_arrays (dict_set al name (xs @ [arr])) rest)"

fun scan ::
  "Range \<Rightarrow> (int \<times> int \<times> 'a arrays) list \<Rightarrow> nat \<Rightarrow> nat option \<Rightarrow> (string \<times> 'a list list) list
     \<Rightarrow> error + nat option \<times> (string \<times> 'a list list) list" where
  "scan fr [] i used al = Inr (used, al)"
| "scan fr ((es, ee, arrs) # rest) i used al =
     (if entrystart fr = es \<and> entryend fr = ee
      then bindE (append_arrays al arrs) (\<lambda>al'. Inr (Some i, al'))
      else scan fr rest (i + 1) (Some i) al)"

fun consume ::
  "'a treedata \<Rightarrow> (string \<times> 'a list list) list \<Rightarrow> nat option \<Rightarrow> Range list
     \<Rightarrow> error + 'a treedata \<times> (string \<times> 'a list list) list" where
  "consume td al used [] = Inr (td, al)"
| "consume td al used (fr # frs) =
     (case map_of td (path fr) of
        None \<Rightarrow> Inl (KeyError (path fr))
      | Some l \<Rightarrow>
          bindE (scan fr l 0 used al) (\<lambda>(used', al').
            case used' of
              None \<Rightarrow> Inl (UnboundLocalError ''used'')
            | Some u \<Rightarrow>
                let l' = drop (u + 1) l;
                    td' = (if l' = [] then dict_del td (path fr) else dict_set td (path fr) l')
                in consume td' al' used' frs))"

definition outarrays_of :: "(string \<times> 'a list list) list \<Rightarrow> 'a arrays" where
  "outarrays_of al =
     map (\<lambda>(name, arraylist).
            (name, case arraylist of [] \<Rightarrow> [] | [a] \<Rightarrow> a | _ \<Rightarrow> concat arraylist)) al"

definition pack :: "outputtype \<Rightarrow> 'a arrays \<Rightarrow> 'a outvalue" where
  "pack ot outarrays =
     (if ot = OutDict \<or> ot = OutOrderedDict then DictOut outarrays
      else if ot = OutDictSubclass then DictOut (dict_of outarrays)
      else SeqOut (map snd outarrays))"

definition output_of ::
  "outputtype \<Rightarrow> PartitionSet \<Rightarrow> 'a treedata \<Rightarrow> nat \<Rightarrow> error + 'a outvalue \<times> 'a treedata" where
  "output_of ot ps td n =
     bindE (consume td (map (\<lambda>x. (x, [])) (keys (branchdtypes ps))) None
              (ranges (partitions ps ! n))) (\<lambda>(td', al).
       Inr (pack ot (outarrays_of al), td'))"

text \<open>
  Lines 423 to 428 and 433 to 438: yield every partition that is complete, in
  order, and stop at the first that is not. A raise ends the generator; what was
  yielded before stays yielded.
\<close>

function emit ::
  "outputtype \<Rightarrow> PartitionSet \<Rightarrow> ('a, 't) it_state \<Rightarrow> error option \<times> ('a, 't) it_state" where
  "emit ot ps st =
     (if nextpartition st < length (partitions ps) then
        (if \<not> complete ps (treedata st) (nextpartition st) then (None, st)
         else case output_of ot ps (treedata st) (nextpartition st) of
                Inl e \<Rightarrow> (Some e, st)
              | Inr (v, td') \<Rightarrow>
                  emit ot ps
                    (st\<lparr>treedata := td',
                        yields := yields st @
                          [\<lparr>y_index = nextpartition st, y_treedata = treedata st, y_value = v\<rparr>],
                        nextpartition := nextpartition st + 1\<rparr>))
      else (None, st))"
  by pat_completeness auto
termination
  by (relation "measure (\<lambda>(ot, ps, st). length (partitions ps) - nextpartition st)") auto

text \<open>Line 417 and line 431: the pending entry ranges of the open file are read.\<close>

definition flush_tree :: "('a, 't) reader \<Rightarrow> ('a, 't) it_state \<Rightarrow> error + ('a, 't) it_state" where
  "flush_tree rd st =
     (case oldpath st of
        None \<Rightarrow> Inr st
      | Some p \<Rightarrow>
          (case cur_tree st of
             None \<Rightarrow> Inl (UnboundLocalError ''tree'')
           | Some t \<Rightarrow>
               bindE (r_iterator rd t (entries st)) (\<lambda>l.
                 Inr (st\<lparr>treedata := dict_set (treedata st) p l\<rparr>))))"

text \<open>Lines 414 to 421, the loop over the ranges of one partition.\<close>

fun walk_ranges :: "('a, 't) reader \<Rightarrow> ('a, 't) it_state \<Rightarrow> Range list \<Rightarrow> error + ('a, 't) it_state" where
  "walk_ranges rd st [] = Inr st"
| "walk_ranges rd st (fr # frs) =
     bindE (if oldpath st \<noteq> Some (path fr)
            then bindE (flush_tree rd st) (\<lambda>st1.
                 bindE (r_open rd (path fr)) (\<lambda>t.
                   Inr (st1\<lparr>cur_tree := Some t, entries := []\<rparr>)))
            else Inr st) (\<lambda>st2.
       walk_ranges rd
         (st2\<lparr>entries := entries st2 @ [(entrystart fr, entryend fr)], oldpath := Some (path fr)\<rparr>)
         frs)"

text \<open>Lines 413 to 428, the loop over the partitions.\<close>

fun walk_partitions ::
  "('a, 't) reader \<Rightarrow> outputtype \<Rightarrow> PartitionSet \<Rightarrow> ('a, 't) it_state \<Rightarrow> Partition list
     \<Rightarrow> error option \<times> ('a, 't) it_state" where
  "walk_partitions rd ot ps st [] = (None, st)"
| "walk_partitions rd ot ps st (p # rest) =
     (case walk_ranges rd st (ranges p) of
        Inl e \<Rightarrow> (Some e, st)
      | Inr st1 \<Rightarrow>
          (case emit ot ps st1 of
             (Some e, st2) \<Rightarrow> (Some e, st2)
           | (None, st2) \<Rightarrow> walk_partitions rd ot ps st2 rest))"

text \<open>
  Lines 371 and 372: with \<open>outputtype = namedtuple\<close> the loop unpacks each key of
  the \<open>branchdtypes\<close> dictionary, a string, into three values and reads the
  attribute \<open>name\<close> of the first, a string of one character.
\<close>

definition namedtuple_fields :: "PartitionSet \<Rightarrow> error option" where
  "namedtuple_fields ps =
     (case keys (branchdtypes ps) of
        [] \<Rightarrow> None
      | k # _ \<Rightarrow> if length k \<noteq> 3 then Some UnpackError else Some (AttributeError ''name''))"

text \<open>
  The whole generator: the values yielded, in order, and the error that ended it,
  if any.
\<close>

definition iterator ::
  "('a, 't) reader \<Rightarrow> outputtype \<Rightarrow> PartitionSet \<Rightarrow> error option \<times> 'a yielded list" where
  "iterator rd ot ps =
     (let st0 = \<lparr>treedata = [], oldpath = None, cur_tree = None, entries = [],
                 nextpartition = 0, yields = []\<rparr>
      in case (if ot = OutNamedtuple then namedtuple_fields ps else None) of
           Some e \<Rightarrow> (Some e, [])
         | None \<Rightarrow>
             (case walk_partitions rd ot ps st0 (partitions ps) of
                (Some e, st1) \<Rightarrow> (Some e, yields st1)
              | (None, st1) \<Rightarrow>
                  (case flush_tree rd st1 of
                     Inl e \<Rightarrow> (Some e, yields st1)
                   | Inr st2 \<Rightarrow>
                       (case emit ot ps st2 of (r, st3) \<Rightarrow> (r, yields st3)))))"

text \<open>
  The invariant of the generator: the partitions yielded so far are those of index
  0 up to \<open>nextpartition\<close>, in this order, and each was complete in the \<open>treedata\<close>
  recorded with it.
\<close>

definition it_inv :: "PartitionSet \<Rightarrow> ('a, 't) it_state \<Rightarrow> bool" where
  "it_inv ps st \<longleftrightarrow> nextpartition st \<le> length (partitions ps) \<and>
     map y_index (yields st) = [0..<nextpartition st] \<and>
     (\<forall>y \<in> set (yields st). complete ps (y_treedata y) (y_index y))"

subsection \<open>Example input\<close>

text \<open>
  A reader that returns, for each requested entry range, the entry numbers
  themselves as the array of branch \<open>x\<close>; and a partition set of two partitions,
  the second of which crosses from \<open>a.root\<close> to \<open>b.root\<close>.
\<close>

definition ex_reader :: "(int, string) reader" where
  "ex_reader = \<lparr>r_open = (\<lambda>p. Inr p),
      r_iterator = (\<lambda>t es. Inr (map (\<lambda>(s, e). (s, e, [(''x'', [s..e - 1])])) es))\<rparr>"

definition ex_partitionset :: PartitionSet where
  "ex_partitionset = \<lparr>treepath = ''events'', branchdtypes = [(''x'', ''int32'')], branchcounters = [],
     numpartitions = 2, numentries = 4,
     partitions = [\<lparr>index = 0, ranges = [\<lparr>path = ''a.root'', entrystart = 0, entryend = 2, pathi = None\<rparr>]\<rparr>,
                   \<lparr>index = 1, ranges = [\<lparr>path = ''a.root'', entrystart = 2, entryend = 3, pathi = None\<rparr>,
                                          \<lparr>path = ''b.root'', entrystart = 0, entryend = 1, pathi = None\<rparr>]\<rparr>]\<rparr>"

section \<open>ROOT file writer (src/newwriter.py)\<close>

subsection \<open>The file buffer\<close>

text \<open>
  Modelled from the spec: \<open>DiskArray\<close> (module \<open>write.diskarray\<close>) is not among the
  sources. It is the growable byte array of the spec: a length and the bytes,
  here a function from offsets to bytes that is 0 beyond what was written.
  \<open>resize\<close> sets the length and drops what lies beyond it, a write at an offset
  extends the file when it ends beyond the length, and \<open>copy_slice\<close> is the slice
  assignment \<open>file[dst:dst + n] = file[src:src + n]\<close> for slices inside the file.
  A Python \<open>str\<close> or \<open>bytes\<close> is a \<open>string\<close>, the list of its UTF-8 bytes.
\<close>

type_synonym byte = "8 word"

record diskarray =
  flen :: int
  fdata :: "int \<Rightarrow> byte"

definition resize :: "diskarray \<Rightarrow> int \<Rightarrow> diskarray" where
  "resize f n = \<lparr>flen = n, fdata = (\<lambda>i. if i < n then fdata f i else 0)\<rparr>"

definition write_at :: "diskarray \<Rightarrow> int \<Rightarrow> byte list \<Rightarrow> diskarray" where
  "write_at f pos bs =
     \<lparr>flen = max (flen f) (pos + int (length bs)),
      fdata = (\<lambda>i. if pos \<le> i \<and> i < pos + int (length bs) then bs ! nat (i - pos) else fdata f i)\<rparr>"

definition copy_slice :: "diskarray \<Rightarrow> int \<Rightarrow> int \<Rightarrow> int \<Rightarrow> diskarray" where
  "copy_slice f dst src n =
     f\<lparr>fdata := (\<lambda>i. if dst \<le> i \<and> i < dst + n then fdata f (src + (i - dst)) else fdata f i)\<rparr>"

definition read_at :: "diskarray \<Rightarrow> int \<Rightarrow> nat \<Rightarrow> byte list" where
  "read_at f pos n = map (\<lambda>k. fdata f (pos + int k)) [0..<n]"

text \<open>\<open>struct.pack(">i", n)\<close>: the four bytes of a 32-bit integer, most significant first.\<close>

definition be32 :: "int \<Rightarrow> byte list" where
  "be32 n =
     (let w = (word_of_int n :: 32 word)
      in [ucast (drop_bit 24 w), ucast (drop_bit 16 w), ucast (drop_bit 8 w), ucast w])"

subsection \<open>Layout records and the sink\<close>

text \<open>
  The record classes (\<open>Header\<close>, the key classes, \<open>DirectoryInfo\<close>) and the \<open>Sink\<close>
  are imported by the writer and not among the sources. The writer reads and
  assigns the fields below. What the missing code decides is taken as the
  parameter \<open>sink\<close>: the header a fresh \<open>Header(bytename, fCompress)\<close> holds, the
  three size fields a fresh key holds, and the bytes each record is serialized
  to. Every sink operation writes the bytes at the cursor and advances the
  cursor by their number (spec, 4.2).
\<close>

record header =
  fBEGIN :: int
  fEND :: int
  fSeekFree :: int
  fSeekInfo :: int
  fNbytesInfo :: int
  fNbytesName :: int
  fCompress :: int

datatype key_class =
    Begin_Key string
  | StreamerKey int int
  | HeadKey int int string
  | JunkKey string
  | StringKey string int

record key =
  fNbytes :: int
  fKeylen :: int
  fObjlen :: int
  key_class :: key_class

record directoryinfo =
  fNbytesKeys :: int
  fNbytesName_dir :: int
  fSeekKeys :: int

record sink =
  Header_new :: "string \<Rightarrow> int \<Rightarrow> header"
  key_sizes :: "key_class \<Rightarrow> int \<times> int \<times> int"
  ser_header :: "string \<Rightarrow> header \<Rightarrow> byte list"
  ser_key :: "key \<Rightarrow> byte list"
  ser_directoryinfo :: "directoryinfo \<Rightarrow> byte list"
  ser_strings :: "string \<Rightarrow> byte list"
  ser_object :: "string \<Rightarrow> byte list"
  ser_allstreamers :: "byte list"
  ser_tobjstring_streamers :: "byte list"

definition new_key :: "sink \<Rightarrow> key_class \<Rightarrow> key" where
  "new_key sk c =
     (case key_sizes sk c of
        (n, k, ob) \<Rightarrow> \<lparr>fNbytes = n, fKeylen = k, fObjlen = ob, key_class = c\<rparr>)"

definition put :: "diskarray \<Rightarrow> int \<Rightarrow> byte list \<Rightarrow> diskarray \<times> int" where
  "put f cur bs = (write_at f cur bs, cur + int (length bs))"

definition set_header :: "sink \<Rightarrow> string \<Rightarrow> diskarray \<Rightarrow> int \<Rightarrow> header \<Rightarrow> diskarray \<times> int" where
  "set_header sk nm f cur h = put f cur (ser_header sk nm h)"

definition set_key :: "sink \<Rightarrow> diskarray \<Rightarrow> int \<Rightarrow> key \<Rightarrow> diskarray \<times> int" where
  "set_key sk f cur k = put f cur (ser_key sk k)"

definition set_directoryinfo :: "sink \<Rightarrow> diskarray \<Rightarrow> int \<Rightarrow> directoryinfo \<Rightarrow> diskarray \<times> int" where
  "set_directoryinfo sk f cur d = put f cur (ser_directoryinfo sk d)"

definition set_strings :: "sink \<Rightarrow> diskarray \<Rightarrow> int \<Rightarrow> string \<Rightarrow> diskarray \<times> int" where
  "set_strings sk f cur nm = put f cur (ser_strings sk nm)"

definition set_object :: "sink \<Rightarrow> diskarray \<Rightarrow> int \<Rightarrow> string \<Rightarrow> diskarray \<times> int" where
  "set_object sk f cur s = put f cur (ser_object sk s)"

definition set_numbers :: "diskarray \<Rightarrow> int \<Rightarrow> int \<Rightarrow> diskarray \<times> int" where
  "set_numbers f cur n = put f cur (be32 n)"

subsection \<open>The writer\<close>

text \<open>
  The attributes of a \<open>NewWriter\<close>. A \<open>Cursor\<close> is its index. In the constructor
  \<open>streamerend\<close> and \<open>keyend\<close> are bound to the cursor object that the sink then
  advances; they hold the index that object has when \<open>self.cursor\<close> is bound to a
  new \<open>Cursor\<close>. \<open>self.file\<close> is the field \<open>wfile\<close>; \<open>flushes\<close> counts the calls of
  \<open>file.flush()\<close>.
\<close>

datatype item = TObjString string | OtherItem

record writer =
  wfile :: diskarray
  bytename :: string
  cursor :: int
  streamers :: "string list"
  objend :: int
  expander :: int
  expanderpow :: nat
  header :: header
  directory_pointcheck :: int
  directory :: directoryinfo
  streamerend :: int
  streamerlimit :: int
  keystart :: int
  keyend :: int
  keylimit :: int
  head_key_pointcheck :: int
  head_key :: key
  head_key_end :: int
  nkeys :: int
  flushes :: nat

text \<open>Line 22: the part of the file name after the last \<open>/\<close>.\<close>

definition basename :: "string \<Rightarrow> string" where
  "basename filename = rev (takeWhile (\<lambda>c. c \<noteq> CHR ''/'') (rev filename))"

text \<open>Lines 20 to 111, \<open>__init__\<close>, statement by statement.\<close>

definition new_writer :: "sink \<Rightarrow> string \<Rightarrow> writer" where
  "new_writer sk filename =
     (let file0 = \<lparr>flen = 0, fdata = (\<lambda>i. 0)\<rparr>;
          nm = basename filename;
          header0 = Header_new sk nm 0;
          (file1, c1) = set_header sk nm file0 0 header0;
          pointcheck = fBEGIN header0;
          key0 = new_key sk (Begin_Key nm);
          (file2, c2) = set_key sk file1 pointcheck key0;
          key1 = key0\<lparr>fKeylen := c2 - pointcheck\<rparr>;
          key2 = key1\<lparr>fObjlen := fNbytes key1 - fKeylen key1\<rparr>;
          (file3, c2') = set_key sk file2 pointcheck key2;
          (file4, c3) = set_strings sk file3 c2 nm;
          dpc = c3;
          directory0 = \<lparr>fNbytesKeys = 0, fNbytesName_dir = fNbytesName header0, fSeekKeys = 0\<rparr>;
          (file5, c4) = set_directoryinfo sk file4 c3 directory0;
          header1 = header0\<lparr>fSeekInfo := c4\<rparr>;
          skey0 = new_key sk (StreamerKey c4 0);
          (file6, c5) = set_key sk file5 c4 skey0;
          skey1 = skey0\<lparr>fKeylen := c5 - c4\<rparr>;
          skey2 = skey1\<lparr>fNbytes := fKeylen skey1 + fObjlen skey1\<rparr>;
          (file7, c5') = set_key sk file6 c4 skey2;
          header2 = header1\<lparr>fNbytesInfo := fNbytes skey2\<rparr>;
          (file8, c0) = set_header sk nm file7 0 header2;
          streamerstart = c5;
          file9 = resize file8 (c5 + 500);
          (file10, c6) = put file9 c5 (ser_allstreamers sk);
          c7 = streamerstart + 500;
          directory1 = directory0\<lparr>fSeekKeys := c7\<rparr>;
          (file11, dc) = set_directoryinfo sk file10 dpc directory1;
          file12 = resize file11 (c7 + 500);
          hk = new_key sk (HeadKey (fNbytesKeys directory1) (fSeekKeys directory1) nm);
          (file13, c8) = set_key sk file12 c7 hk;
          (file14, c9) = set_numbers file13 c8 0;
          header3 = header2\<lparr>fSeekFree := c9\<rparr>;
          header4 = header3\<lparr>fEND := fSeekFree header3 + 500\<rparr>;
          (file15, c0') = set_header sk nm file14 0 header4
      in \<lparr>wfile = file15, bytename = nm, cursor = c9, streamers = [], objend = 0,
          expander = 500, expanderpow = 2, header = header4, directory_pointcheck = dpc,
          directory = directory1, streamerend = c6, streamerlimit = c6 + 500,
          keystart = c7, keyend = c9, keylimit = c7 + 500, head_key_pointcheck = c7,
          head_key = hk, head_key_end = c8, nkeys = 0, flushes = 0\<rparr>)"

text \<open>
  \<open>__setitem__\<close> in the order of its statements. Lines 118 to 136 (for a
  \<open>TObjString\<close>): the junk key and the object are written at \<open>fEND\<close>; the result is
  the writer with the \<open>StringKey\<close> that line 136 creates.
\<close>

definition place_object :: "sink \<Rightarrow> writer \<Rightarrow> string \<Rightarrow> string \<Rightarrow> writer \<times> key" where
  "place_object sk w keyname s =
     (let pointcheck = cursor w;
          junk0 = new_key sk (JunkKey keyname);
          (f1, c1) = set_key sk (wfile w) pointcheck junk0;
          junk1 = junk0\<lparr>fKeylen := c1 - pointcheck\<rparr>;
          junk2 = junk1\<lparr>fNbytes := fKeylen junk1 + fObjlen junk1\<rparr>;
          (f2, c1') = set_key sk f1 pointcheck junk2;
          (f3, c2) = set_object sk f2 c1 s
      in (w\<lparr>wfile := f3, cursor := c2\<rparr>, new_key sk (StringKey keyname pointcheck)))"

text \<open>Lines 139 to 147: the key list is moved to \<open>fEND\<close> when less than 200 bytes are left.\<close>

definition key_realloc :: "sink \<Rightarrow> writer \<Rightarrow> writer" where
  "key_realloc sk w =
     (if keylimit w - keyend w < 200 then
        (let old_end = fEND (header w);
             f1 = resize (wfile w) (old_end + expander w ^ expanderpow w);
             f2 = copy_slice f1 old_end (fSeekKeys (directory w)) (expander w);
             keyend' = old_end + keyend w - fSeekKeys (directory w);
             directory' = (directory w)\<lparr>fSeekKeys := old_end\<rparr>;
             keylimit' = old_end + expander w ^ expanderpow w;
             header1 = (header w)\<lparr>fEND := keylimit'\<rparr>;
             header2 = header1\<lparr>fSeekFree := keylimit'\<rparr>;
             (f3, dc) = set_directoryinfo sk f2 (directory_pointcheck w) directory'
         in w\<lparr>wfile := f3, keyend := keyend', directory := directory', keylimit := keylimit',
              header := header2\<rparr>)
      else w)"

text \<open>Lines 149 to 153: the key of the object is appended at \<open>keyend\<close>.\<close>

definition place_key :: "sink \<Rightarrow> writer \<Rightarrow> key \<Rightarrow> writer" where
  "place_key sk w k =
     (let pointcheck = keyend w;
          (f1, c1) = set_key sk (wfile w) pointcheck k;
          k1 = k\<lparr>fKeylen := c1 - pointcheck\<rparr>;
          k2 = k1\<lparr>fNbytes := fKeylen k1 + fObjlen k1\<rparr>;
          (f2, c1') = set_key sk f1 pointcheck k2
      in w\<lparr>wfile := f2, keyend := c1\<rparr>)"

text \<open>
  Lines 156 to 171: the streamer of \<open>TObjString\<close> is written when the type is new,
  after the streamer region was moved to \<open>fEND\<close> if less than 500 bytes are left.
  Constructing a \<open>TObjStringStreamers\<close> is taken to write nothing; its \<open>write()\<close>
  writes the streamer bytes at the cursor it was given, \<open>streamerend\<close>, and
  advances it.
\<close>

definition streamer_realloc :: "writer \<Rightarrow> writer" where
  "streamer_realloc w =
     (if streamerlimit w - streamerend w < 500 then
        (let old_end = fEND (header w);
             f1 = copy_slice (wfile w) old_end (fSeekInfo (header w)) (expander w);
             streamerend' = old_end + streamerend w - fSeekInfo (header w);
             header1 = (header w)\<lparr>fSeekInfo := old_end\<rparr>;
             streamerlimit' = old_end + expander w ^ expanderpow w;
             header2 = header1\<lparr>fEND := streamerlimit'\<rparr>;
             header3 = header2\<lparr>fSeekFree := streamerlimit'\<rparr>
         in w\<lparr>wfile := f1, streamerend := streamerend', streamerlimit := streamerlimit',
              header := header3\<rparr>)
      else w)"

definition place_streamers :: "sink \<Rightarrow> writer \<Rightarrow> writer" where
  "place_streamers sk w =
     (if ''TObjString'' \<notin> set (streamers w) then
        (let w1 = streamer_realloc (w\<lparr>streamers := streamers w @ [''TObjString'']\<rparr>);
             (f1, c1) = put (wfile w1) (streamerend w1) (ser_tobjstring_streamers sk)
         in w1\<lparr>wfile := f1, streamerend := c1\<rparr>)
      else w)"

text \<open>Lines 173 to 186: the key counter, the directory and the head key are patched.\<close>

definition update_counts :: "sink \<Rightarrow> writer \<Rightarrow> writer" where
  "update_counts sk w =
     (let n = nkeys w + 1;
          (f1, c1) = set_numbers (wfile w) (head_key_end w) n;
          directory' = (directory w)\<lparr>fNbytesKeys := fEND (header w) - keyend w\<rparr>;
          (f2, c2) = set_directoryinfo sk f1 (directory_pointcheck w) directory';
          hk1 = (head_key w)\<lparr>fNbytes := fNbytesKeys directory'\<rparr>;
          hk2 = hk1\<lparr>fKeylen := head_key_end w - head_key_pointcheck w\<rparr>;
          hk3 = hk2\<lparr>fObjlen := fNbytes hk2 - fKeylen hk2\<rparr>;
          (f3, c3) = set_key sk f2 (head_key_pointcheck w) hk3
      in w\<lparr>wfile := f3, nkeys := n, directory := directory', head_key := hk3\<rparr>)"

text \<open>Lines 189 to 195: the header is raised to the cursor and written, the file flushed.\<close>

definition update_header :: "sink \<Rightarrow> writer \<Rightarrow> writer" where
  "update_header sk w =
     (let h = (if cursor w > fEND (header w)
               then (header w)\<lparr>fSeekFree := cursor w, fEND := cursor w\<rparr>
               else header w);
          (f1, c1) = set_header sk (bytename w) (wfile w) 0 h
      in w\<lparr>wfile := f1, header := h, flushes := flushes w + 1\<rparr>)"

text \<open>
  The states an insert goes through, one per step, and the insert itself. Only a
  value whose type is \<open>TObjString\<close> is placed (line 120); for any other value the
  steps of lines 173 to 195 still run.
\<close>

definition insert_stages :: "sink \<Rightarrow> writer \<Rightarrow> string \<Rightarrow> item \<Rightarrow> writer list" where
  "insert_stages sk w keyname it =
     (let w0 = w\<lparr>cursor := fEND (header w)\<rparr>
      in case it of
           TObjString s \<Rightarrow>
             (let (w1, k) = place_object sk w0 keyname s;
                  w2 = key_realloc sk w1;
                  w3 = place_key sk w2 k;
                  w4 = place_streamers sk w3;
                  w5 = update_counts sk w4;
                  w6 = update_header sk w5
              in [w0, w1, w2, w3, w4, w5, w6])
         | OtherItem \<Rightarrow>
             (let w5 = update_counts sk w0;
                  w6 = update_header sk w5
              in [w0, w5, w6]))"

definition setitem :: "sink \<Rightarrow> writer \<Rightarrow> string \<Rightarrow> item \<Rightarrow> writer" where
  "setitem sk w keyname it = last (insert_stages sk w keyname it)"

text \<open>A writer after construction and a sequence of inserts.\<close>

definition run_writer :: "sink \<Rightarrow> string \<Rightarrow> (string \<times> item) list \<Rightarrow> writer" where
  "run_writer sk filename ops =
     foldl (\<lambda>w (keyname, it). setitem sk w keyname it) (new_writer sk filename) ops"

subsection \<open>Order on headers and invariant of the writer\<close>

text \<open>
  \<open>le_header h h'\<close>: neither \<open>fSeekFree\<close> nor \<open>fEND\<close> is smaller in \<open>h'\<close> than in \<open>h\<close>.
  \<open>winv dlen w\<close> holds of every writer reached from the constructor, \<open>dlen\<close> being
  the width of the directory record: the free pointer is not beyond the end, and
  the key list and the directory record start before the end. \<open>directory0\<close> is the
  directory record the constructor writes first (line 55).
\<close>

definition le_header :: "header \<Rightarrow> header \<Rightarrow> bool" where
  "le_header h h' \<longleftrightarrow> fSeekFree h \<le> fSeekFree h' \<and> fEND h \<le> fEND h'"

definition winv :: "int \<Rightarrow> writer \<Rightarrow> bool" where
  "winv dlen w \<longleftrightarrow>
     fSeekFree (header w) \<le> fEND (header w) \<and>
     fSeekKeys (directory w) \<le> fEND (header w) \<and>
     directory_pointcheck w + dlen \<le> fEND (header w) \<and>
     expander w = 500 \<and> expanderpow w = 2"

definition directory0 :: "sink \<Rightarrow> string \<Rightarrow> directoryinfo" where
  "directory0 sk fn = \<lparr>fNbytesKeys = 0,
     fNbytesName_dir = fNbytesName (Header_new sk (basename fn) 0), fSeekKeys = 0\<rparr>"

subsection \<open>Example sink\<close>

text \<open>
  Modelled from the spec: a sink with the record layouts of the ROOT format as far
  as the spec names their fields (section 4.2 and 6); every integer is big-endian
  and every record has a width that depends only on the lengths of its names.
  A fresh header has \<open>fBEGIN = 100\<close> and \<open>fEND = fSeekFree = 0\<close>, a fresh key has
  its three size fields 0. It serves as the concrete input of the examples.
\<close>

definition be16 :: "int \<Rightarrow> byte list" where
  "be16 n = (let w = (word_of_int n :: 16 word) in [ucast (drop_bit 8 w), ucast w])"

definition pstr :: "string \<Rightarrow> byte list" where
  "pstr s = word_of_nat (length s) # map (\<lambda>c. word_of_nat (of_char c)) s"

definition ex_key_names :: "key_class \<Rightarrow> string \<times> string \<times> string \<times> int" where
  "ex_key_names c =
     (case c of
        Begin_Key nm \<Rightarrow> (''TFile'', nm, '''', 100)
      | StreamerKey pos n \<Rightarrow> (''TList'', ''StreamerInfo'', ''Doubly linked list'', pos)
      | HeadKey n pos nm \<Rightarrow> (''TFile'', nm, '''', pos)
      | JunkKey nm \<Rightarrow> (''TObjString'', nm, ''Collectable string class'', 0)
      | StringKey nm pos \<Rightarrow> (''TObjString'', nm, ''Collectable string class'', pos))"

definition ex_ser_key :: "key \<Rightarrow> byte list" where
  "ex_ser_key k =
     (case ex_key_names (key_class k) of
        (cls, nm, title, pos) \<Rightarrow>
          be32 (fNbytes k) @ be16 4 @ be32 (fObjlen k) @ be32 0 @ be16 (fKeylen k) @ be16 1 @
          be32 pos @ be32 100 @ pstr cls @ pstr nm @ pstr title)"

definition ex_ser_header :: "string \<Rightarrow> header \<Rightarrow> byte list" where
  "ex_ser_header nm h =
     pstr ''root'' @ be32 61400 @ be32 (fBEGIN h) @ be32 (fEND h) @ be32 (fSeekFree h) @
     be32 0 @ be32 1 @ be32 (fNbytesName h) @ be32 (fCompress h) @ be32 (fSeekInfo h) @
     be32 (fNbytesInfo h) @ replicate 18 0"

definition ex_ser_directoryinfo :: "directoryinfo \<Rightarrow> byte list" where
  "ex_ser_directoryinfo d =
     be16 5 @ be32 0 @ be32 0 @ be32 (fNbytesKeys d) @ be32 (fNbytesName_dir d) @ be32 100 @
     be32 0 @ be32 (fSeekKeys d)"

definition ex_sink :: sink where
  "ex_sink =
     \<lparr>Header_new = (\<lambda>nm c. \<lparr>fBEGIN = 100, fEND = 0, fSeekFree = 0, fSeekInfo = 0,
                             fNbytesInfo = 0, fNbytesName = 2 * int (length nm) + 36,
                             fCompress = c\<rparr>),
      key_sizes = (\<lambda>c. (0, 0, 0)),
      ser_header = ex_ser_header,
      ser_key = ex_ser_key,
      ser_directoryinfo = ex_ser_directoryinfo,
      ser_strings = (\<lambda>nm. pstr nm @ pstr ''''),
      ser_object = (\<lambda>s. be32 (int (length s) + 11) @ be16 1 @ be16 1 @ be32 0 @ be32 0 @ pstr s),
      ser_allstreamers = replicate 64 0,
      ser_tobjstring_streamers = replicate 300 1\<rparr>"

text \<open>
  A file \<open>/tmp/a.root\<close> with two inserts. The name of the first key is 250
  characters long, so that its key leaves less than 200 bytes of the 500 of the
  key list and the second insert moves the key list.
\<close>

definition ex_long_name :: string where
  "ex_long_name = replicate 250 CHR ''k''"

definition ex_two_inserts :: "(string \<times> item) list" where
  "ex_two_inserts = [(ex_long_name, TObjString ''one''), (''b'', TObjString ''two'')]"

definition ex_w0 :: writer where
  "ex_w0 = new_writer ex_sink ''/tmp/a.root''"

definition ex_w1 :: writer where
  "ex_w1 = setitem ex_sink ex_w0 ex_long_name (TObjString ''one'')"

definition ex_w2 :: writer where
  "ex_w2 = setitem ex_sink ex_w1 ''b'' (TObjString ''two'')"

section \<open>Properties of the JSON form\<close>

lemma PartitionSet_init_ListArg:
  "PartitionSet_init tp bd bc n m [ListArg ps] = Inl AssertionError"
  by (simp add: PartitionSet_init_def)

text \<open>
  Claim C4 (serialization round trip): \<open>fromJson(toJson(ps))\<close> should succeed and
  give back \<open>ps\<close>. It does not: for every partition set \<open>ps\<close>, whatever \<open>str\<close> and
  \<open>numpy.dtype\<close> do, \<open>fromJson\<close> applied to \<open>toJson(ps)\<close> raises. Line 163 iterates
  over the keys of the \<open>branchdtypes\<close> dictionary instead of its items, and line 167
  passes the list of partitions as one argument, so that the constructor's
  assertions on \<open>numpartitions\<close> or on the indices fail.
\<close>

theorem fromJson_toJson_raises:
  "isl (PartitionSet_fromJson np_dtype (PartitionSet_toJson dtype_str ps))"
  by (simp add: PartitionSet_fromJson_def PartitionSet_toJson_def bindE_def
      PartitionSet_init_ListArg split: sum.splits)

text \<open>
  The same through strings, whenever \<open>json.loads\<close> gives back what \<open>json.dumps\<close> was
  given.
\<close>

lemma fromJsonString_toJsonString_raises:
  assumes "loads (dumps (PartitionSet_toJson dtype_str ps)) = Inr (PartitionSet_toJson dtype_str ps)"
  shows "isl (PartitionSet_fromJsonString loads np_dtype
                (PartitionSet_toJsonString dumps dtype_str ps))"
proof -
  have "isl (PartitionSet_fromJson np_dtype (PartitionSet_toJson dtype_str ps))"
    by (simp add: PartitionSet_fromJson_def PartitionSet_toJson_def bindE_def
        PartitionSet_init_ListArg split: sum.splits)
  then show ?thesis
    using assms by (simp add: PartitionSet_fromJsonString_def PartitionSet_toJsonString_def bindE_def)
qed

section \<open>Properties of \<open>fill\<close>\<close>

lemma bindE_simps [simp]: "bindE (Inl e) f = Inl e" "bindE (Inr x) f = f x"
  by (simp_all add: bindE_def)

subsection \<open>Schema validation of a later file\<close>

lemma map_of_dict_del: "map_of (dict_del d k) k' = (if k' = k then None else map_of d k')"
  by (induction d) (auto simp: dict_del_def)

lemma map_of_None_keys: "map_of d k = None \<longleftrightarrow> k \<notin> set (keys d)"
  by (simp add: keys_def map_of_eq_None_iff)

lemma union_keys_set: "distinct (union_keys a b) \<and> set (union_keys a b) = set (keys a) \<union> set (keys b)"
  by (simp add: union_keys_def)

text \<open>
  A run of the loop of line 251 that ends without a raise has deleted from
  \<open>newtoget\<close> exactly the visited keys that \<open>toget\<close> lacks, and has found every
  visited key in \<open>newtoget\<close>, with the dtype of \<open>toget\<close> where \<open>toget\<close> has the key.
\<close>

lemma check_selection_Inr:
  "distinct ks \<Longrightarrow> check_selection p pp toget ks nt = Inr nt' \<Longrightarrow>
     nt' = filter (\<lambda>kv. fst kv \<notin> set ks - set (keys toget)) nt \<and>
     (\<forall>k \<in> set ks. map_of nt k \<noteq> None \<and>
        (map_of toget k \<noteq> None \<longrightarrow> map_of nt k = map_of toget k))"
proof (induction ks arbitrary: nt)
  case Nil
  then show ?case by simp
next
  case (Cons key ks)
  from Cons.prems obtain dnew where dnew: "map_of nt key = Some dnew"
    by (auto split: option.splits)
  from Cons.prems have d: "distinct ks" and nk: "key \<notin> set ks" by auto
  show ?case
  proof (cases "map_of toget key")
    case None
    with Cons.prems dnew have rec: "check_selection p pp toget ks (dict_del nt key) = Inr nt'"
      by simp
    from Cons.IH[OF d rec] have
      1: "nt' = filter (\<lambda>kv. fst kv \<notin> set ks - set (keys toget)) (dict_del nt key)" and
      2: "\<forall>k \<in> set ks. map_of (dict_del nt key) k \<noteq> None \<and>
            (map_of toget k \<noteq> None \<longrightarrow> map_of (dict_del nt key) k = map_of toget k)"
      by auto
    have "key \<notin> set (keys toget)" using None by (simp add: map_of_None_keys)
    then have "nt' = filter (\<lambda>kv. fst kv \<notin> set (key # ks) - set (keys toget)) nt"
      unfolding 1 dict_del_def by (auto intro: filter_cong)
    moreover have "\<forall>k \<in> set (key # ks). map_of nt k \<noteq> None \<and>
            (map_of toget k \<noteq> None \<longrightarrow> map_of nt k = map_of toget k)"
      using 2 nk dnew None by (auto simp: map_of_dict_del split: if_splits)
    ultimately show ?thesis by blast
  next
    case (Some dold)
    with Cons.prems dnew have eq: "dnew = dold"
      and rec: "check_selection p pp toget ks nt = Inr nt'"
      by (auto split: if_splits)
    from Cons.IH[OF d rec] have
      1: "nt' = filter (\<lambda>kv. fst kv \<notin> set ks - set (keys toget)) nt" and
      2: "\<forall>k \<in> set ks. map_of nt k \<noteq> None \<and>
            (map_of toget k \<noteq> None \<longrightarrow> map_of nt k = map_of toget k)"
      by auto
    have "key \<in> set (keys toget)" using Some map_of_None_keys[of toget key] by auto
    then have "nt' = filter (\<lambda>kv. fst kv \<notin> set (key # ks) - set (keys toget)) nt"
      unfolding 1 by (auto intro: filter_cong)
    moreover have "\<forall>k \<in> set (key # ks). map_of nt k \<noteq> None \<and>
            (map_of toget k \<noteq> None \<longrightarrow> map_of nt k = map_of toget k)"
      using 2 dnew Some eq by auto
    ultimately show ?thesis by blast
  qed
qed

text \<open>A raise of that loop names a visited key that is missing or whose dtype differs.\<close>

lemma check_selection_Inl:
  "distinct ks \<Longrightarrow> check_selection p pp toget ks nt = Inl e \<Longrightarrow>
     (\<exists>k \<in> set ks. map_of nt k = None \<and> e = BranchNotFound k p pp) \<or>
     (\<exists>k \<in> set ks. \<exists>dnew dold. map_of nt k = Some dnew \<and> map_of toget k = Some dold \<and>
         dnew \<noteq> dold \<and> e = DtypeChanged k dnew p dold pp)"
proof (induction ks arbitrary: nt)
  case Nil
  then show ?case by simp
next
  case (Cons key ks)
  from Cons.prems have d: "distinct ks" and nk: "key \<notin> set ks" by auto
  show ?case
  proof (cases "map_of nt key")
    case None
    with Cons.prems show ?thesis by auto
  next
    case (Some dnew)
    note new = this
    show ?thesis
    proof (cases "map_of toget key")
      case None
      with Cons.prems new have rec: "check_selection p pp toget ks (dict_del nt key) = Inl e"
        by simp
      from Cons.IH[OF d rec] nk show ?thesis
        by (auto simp: map_of_dict_del split: if_splits)
    next
      case (Some dold)
      show ?thesis
      proof (cases "dnew = dold")
        case True
        with Cons.prems Some new have rec: "check_selection p pp toget ks nt = Inl e"
          by simp
        from Cons.IH[OF d rec] show ?thesis by auto
      next
        case False
        with Cons.prems Some new show ?thesis by auto
      qed
    qed
  qed
qed

text \<open>
  Claim C10. The validation of the selection of a later file (lines 250 to 257),
  for any order \<open>ks\<close> in which the union of the two key sets is visited. If it
  does not raise, the selection of the later file has lost exactly the branches
  that the first file's selection \<open>toget\<close> does not have, and every branch of
  \<open>toget\<close> is in the later selection with the same dtype. If it raises, the error
  names a branch of \<open>toget\<close> that the later selection lacks, or a branch of \<open>toget\<close>
  whose dtype differs there. A branch selected only in the later file is dropped
  and never the cause of a raise.
\<close>

theorem check_selection_later_file:
  assumes "distinct ks" and "set ks = set (keys toget) \<union> set (keys newtoget)"
  shows "(case check_selection p pprev toget ks newtoget of
            Inr nt \<Rightarrow>
              nt = filter (\<lambda>kv. fst kv \<in> set (keys toget)) newtoget \<and>
              (\<forall>k \<in> set (keys toget). map_of newtoget k = map_of toget k)
          | Inl e \<Rightarrow>
              (\<exists>k \<in> set (keys toget). map_of newtoget k = None \<and> e = BranchNotFound k p pprev) \<or>
              (\<exists>k \<in> set (keys toget). \<exists>dnew dold. map_of newtoget k = Some dnew \<and>
                  map_of toget k = Some dold \<and> dnew \<noteq> dold \<and>
                  e = DtypeChanged k dnew p dold pprev))"
proof (cases "check_selection p pprev toget ks newtoget")
  case (Inl e)
  from check_selection_Inl[OF assms(1) Inl] show ?thesis
  proof
    assume "\<exists>k \<in> set ks. map_of newtoget k = None \<and> e = BranchNotFound k p pprev"
    then obtain k where k: "k \<in> set ks" "map_of newtoget k = None" "e = BranchNotFound k p pprev"
      by blast
    then have "k \<in> set (keys toget)" using assms(2) by (auto simp: map_of_None_keys)
    with k Inl show ?thesis by auto
  next
    assume "\<exists>k \<in> set ks. \<exists>dnew dold. map_of newtoget k = Some dnew \<and>
              map_of toget k = Some dold \<and> dnew \<noteq> dold \<and> e = DtypeChanged k dnew p dold pprev"
    then obtain k dnew dold where k: "map_of newtoget k = Some dnew" "map_of toget k = Some dold"
      "dnew \<noteq> dold" "e = DtypeChanged k dnew p dold pprev"
      by blast
    then have "k \<in> set (keys toget)" using map_of_None_keys[of toget k] by auto
    with k Inl show ?thesis by auto
  qed
next
  case (Inr nt)
  from check_selection_Inr[OF assms(1) Inr] have
    1: "nt = filter (\<lambda>kv. fst kv \<notin> set ks - set (keys toget)) newtoget" and
    2: "\<forall>k \<in> set ks. map_of newtoget k \<noteq> None \<and>
          (map_of toget k \<noteq> None \<longrightarrow> map_of newtoget k = map_of toget k)"
    by auto
  have "nt = filter (\<lambda>kv. fst kv \<in> set (keys toget)) newtoget"
    unfolding 1 using assms(2) by (auto intro!: filter_cong simp: keys_def)
  moreover have "\<forall>k \<in> set (keys toget). map_of newtoget k = map_of toget k"
    using 2 assms(2) map_of_None_keys[of toget] by auto
  ultimately show ?thesis using Inr by simp
qed

text \<open>
  The first file selects \<open>x\<close>; a later file selects \<open>x\<close> and \<open>y\<close>: no raise, and \<open>y\<close>
  is dropped.
\<close>

theorem check_selection_later_file_witness:
  "distinct [''x'', ''y''] \<and>
   set [''x'', ''y''] = set (keys [(''x'', ''int32'')]) \<union> set (keys [(''x'', ''int32''), (''y'', ''float64'')]) \<and>
   check_selection ''b.root'' ''a.root'' [(''x'', ''int32'')] [''x'', ''y'']
     [(''x'', ''int32''), (''y'', ''float64'')] = Inr [(''x'', ''int32'')]"
proof -
  have h1: "distinct [''x'', ''y'']" by simp
  have h2: "set [''x'', ''y''] =
      set (keys [(''x'', ''int32'')]) \<union> set (keys [(''x'', ''int32''), (''y'', ''float64'')])"
    by (auto simp: keys_def)
  have r: "check_selection ''b.root'' ''a.root'' [(''x'', ''int32'')] [''x'', ''y'']
     [(''x'', ''int32''), (''y'', ''float64'')] = Inr [(''x'', ''int32'')]"
    using check_selection_later_file[OF h1 h2, of "''b.root''" "''a.root''"]
    by (simp add: dict_del_def)
  from h1 h2 r show ?thesis by blast
qed

subsection \<open>Growth across a file boundary\<close>

text \<open>
  Claim C3. When the baskets of the current file are used up the loop does move
  to the next path, and after each append it pops and stops when \<open>under\<close> is false
  and goes on otherwise. But the basket data appended for the next file is not
  taken from that file's branch: started in \<open>a.root\<close> (one basket, entries 0 to 100,
  400 bytes), the loop appends for \<open>b.root\<close> a second basket with entries 0 to 100
  and 400 bytes, although the branch of \<open>b.root\<close> has one basket with entries 0 to
  50 and 200 bytes.
\<close>

theorem accumulate_next_file_metadata:
  "accumulate ex_two_files [(''x'', ''int32'')] [] ''x'' ''int32'' ex_branch_a [(0, ex_tree_a)] 0 0 [] =
     Inr ([\<lparr>bd_path = ''a.root'', bd_branchname = ''x'', bd_dtype = ''int32'', bd_itemdims = [],
            bd_entrystart = 0, bd_entryend = 100, bd_numbytes = 400, bd_pathi = 0\<rparr>,
           \<lparr>bd_path = ''b.root'', bd_branchname = ''x'', bd_dtype = ''int32'', bd_itemdims = [],
            bd_entrystart = 0, bd_entryend = 100, bd_numbytes = 400, bd_pathi = 1\<rparr>],
          2, 0, [(0, ex_tree_a), (1, ex_tree_b)]) \<and>
   bindE (uopen ex_two_files ''b.root'') (\<lambda>t. lookup_branch t ''x'') = Inr ex_branch_b \<and>
   baskets ex_branch_b = [(0, 50, 200)]"
  by code_simp

subsection \<open>Tiling of the files\<close>

text \<open>
  Claim C2. The ranges of a partition set returned by \<open>fill\<close> should end, for each
  path, at the number of entries of that file. On the two example files (default
  \<open>by\<close> and \<open>under\<close>) \<open>fill\<close> returns one partition whose range in \<open>b.root\<close> is 0 to
  100, while \<open>b.root\<close> has 50 entries: the range was built from the baskets of
  \<open>a.root\<close>.
\<close>

theorem fill_range_beyond_numentries:
  "fill 2 ex_two_files =
     Some (Inr \<lparr>treepath = ''events'', branchdtypes = [(''x'', ''int32'')], branchcounters = [],
                numpartitions = 1, numentries = 200,
                partitions =
                  [\<lparr>index = 0,
                    ranges = [\<lparr>path = ''a.root'', entrystart = 0, entryend = 100, pathi = Some 0\<rparr>,
                              \<lparr>path = ''b.root'', entrystart = 0, entryend = 100, pathi = Some 1\<rparr>]\<rparr>]\<rparr>) \<and>
   uopen ex_two_files ''b.root'' = Inr ex_tree_b \<and>
   tree_numentries ex_tree_b = 50"
  by code_simp

subsection \<open>A constraint that no basket satisfies\<close>

lemma fill_loop_run_steps:
  "run_steps k env toget counters st = Some st' \<Longrightarrow>
   fill_loop (k + n) env toget counters st = fill_loop n env toget counters st'"
  by (induction k arbitrary: st) (auto split: sum.splits if_splits)

lemma branch_loop_append:
  "branch_loop env toget counters st (pre @ rest) acc =
     bindE (branch_loop env toget counters st pre acc)
       (\<lambda>(acc', st'). branch_loop env toget counters st' rest acc')"
proof (induction pre arbitrary: st acc)
  case Nil
  then show ?case by simp
next
  case (Cons a pre)
  show ?case
    by (cases "candidate env toget counters st a") (auto simp: Cons.IH)
qed

lemma candidate_zero_baskets:
  assumes "start_branch env toget counters st b = Inr (pi, bi, entryi, br, trs)"
    and "accumulate env toget counters b dt br trs pi bi [] = Inr ([], pi', bi', trs')"
  shows "candidate env toget counters st (b, dt) =
           Inl (if pi' < length (paths env) then CannotSatisfy b entryi (paths env ! pi')
                else IndexError)"
  using assms by (simp add: candidate_def)

text \<open>
  When the basket the growth starts with is not empty and already violates
  \<open>under\<close>, the growth ends with no basket, at the path and basket it started at.
\<close>

lemma accumulate_first_violates:
  assumes "bi < numbaskets br"
    and "append_basket env b dt br pi bi [] = Inr [x]"
    and "\<not> under env [x]"
  shows "accumulate env toget counters b dt br trs pi bi [] = Inr ([], pi, bi, trs)"
  using assms by simp

text \<open>
  Claim C6, counterexample. \<open>fill\<close> raises although no basket can violate the
  constraint: \<open>under\<close> accepts every list, and the second file lacks the branch
  \<open>x\<close> of the first.
\<close>

theorem fill_raises_on_schema:
  "fill 1 ex_renamed = Some (Inl (BranchNotFound ''x'' ''b.root'' ''a.root'')) \<and>
   (\<forall>bs. under ex_renamed bs)"
proof -
  have "fill 1 ex_renamed = Some (Inl (BranchNotFound ''x'' ''b.root'' ''a.root''))"
    by code_simp
  moreover have "\<forall>bs. under ex_renamed bs"
    by (simp add: ex_renamed_def)
  ultimately show ?thesis by blast
qed

subsection \<open>No other raise of \<open>fill\<close> is the error of line 319\<close>

text \<open>
  Every other error that \<open>fill\<close> and the functions it calls raise is of another
  kind. The opener and the \<open>by\<close> function are parameters of \<open>fill\<close>: the lemmas that
  reach them suppose that they do not raise the error of line 319 themselves.
\<close>

lemma check_selection_other:
  "check_selection p pp toget ks nt = Inl e \<Longrightarrow> \<not> is_CannotSatisfy e"
  by (induction ks arbitrary: nt) (auto split: option.splits if_splits)

lemma check_counters_other:
  "check_counters p pp cs ks nc = Inl e \<Longrightarrow> \<not> is_CannotSatisfy e"
  by (induction ks arbitrary: nc) (auto split: option.splits if_splits)

lemma tree_other:
  assumes "\<forall>p e. uopen env p = Inl e \<longrightarrow> \<not> is_CannotSatisfy e"
    and "tree env toget counters trs i = Inl e"
  shows "\<not> is_CannotSatisfy e"
proof (cases "map_of trs i")
  case (Some t)
  with assms(2) show ?thesis by (simp add: tree_def)
next
  case None
  show ?thesis
  proof (cases "length (paths env) \<le> i")
    case True
    with None assms(2) show ?thesis by (auto simp: tree_def)
  next
    case False
    show ?thesis
    proof (cases "uopen env (paths env ! i)")
      case (Inl e')
      with None False assms show ?thesis by (auto simp: tree_def)
    next
      case (Inr t)
      with None False assms(2) show ?thesis
        by (auto simp: tree_def Let_def bindE_def split: sum.splits
            dest: check_selection_other check_counters_other)
    qed
  qed
qed

lemma lookup_branch_other: "lookup_branch t b = Inl e \<Longrightarrow> \<not> is_CannotSatisfy e"
  by (auto simp: lookup_branch_def split: option.splits)

lemma seek_basket_other: "seek_basket br entryi is bi = Inl e \<Longrightarrow> \<not> is_CannotSatisfy e"
  by (induction "is" arbitrary: bi) (auto simp: basketstart_def split: if_splits sum.splits)

lemma start_branch_other:
  assumes "\<forall>p e. uopen env p = Inl e \<longrightarrow> \<not> is_CannotSatisfy e"
    and "start_branch env toget counters st b = Inl e"
  shows "\<not> is_CannotSatisfy e"
  using assms(2) tree_other[OF assms(1)]
  by (auto simp: start_branch_def bindE_def last_range_def range_pathi_def
      split: if_splits sum.splits option.splits
      dest: lookup_branch_other seek_basket_other)

lemma append_basket_other:
  "append_basket env b dt br pi bi bds = Inl e \<Longrightarrow> \<not> is_CannotSatisfy e"
  by (auto simp: append_basket_def bindE_def Let_def basketstart_def basketentries_def
      basketbytes_def split: if_splits sum.splits)

declare accumulate.simps [simp del]

lemma accumulate_other:
  "(\<forall>p e. uopen env p = Inl e \<longrightarrow> \<not> is_CannotSatisfy e) \<Longrightarrow>
   accumulate env toget counters b dt br trs pi bi bds = Inl e \<Longrightarrow> \<not> is_CannotSatisfy e"
proof (induction env toget counters b dt br trs pi bi bds rule: accumulate.induct)
  case (1 env toget counters branchname dt br trs pi bi basketdata)
  note uo = "1.prems"(1)
  note acc = "1.prems"(2)[unfolded accumulate.simps[of env toget counters branchname dt br trs pi bi basketdata]]
  show ?case
  proof (cases "numbaskets br \<le> bi")
    case False
    show ?thesis
    proof (cases "append_basket env branchname dt br pi bi basketdata")
      case (Inl e')
      with acc False show ?thesis by (auto dest: append_basket_other)
    next
      case (Inr bd')
      show ?thesis
      proof (cases "under env bd'")
        case True
        with acc False Inr have "accumulate env toget counters branchname dt br trs pi (bi + 1) bd' = Inl e"
          by simp
        from "1.IH"(2)[OF False Inr _ uo this] True show ?thesis by simp
      next
        case u: False
        with acc False Inr show ?thesis by simp
      qed
    qed
  next
    case True
    show ?thesis
    proof (cases "length (paths env) \<le> pi + 1")
      case l: True
      with acc True show ?thesis by simp
    next
      case l: False
      show ?thesis
      proof (cases "tree env toget counters trs (pi + 1)")
        case (Inl e')
        with acc True l tree_other[OF uo Inl] show ?thesis by simp
      next
        case (Inr tt)
        obtain t trs' where tt: "tt = (t, trs')" by (cases tt)
        show ?thesis
        proof (cases "lookup_branch t branchname")
          case (Inl e')
          with acc True l Inr tt show ?thesis by (auto dest: lookup_branch_other)
        next
          case lb: (Inr basket)
          show ?thesis
          proof (cases "append_basket env branchname dt br (pi + 1) 0 basketdata")
            case (Inl e')
            with acc True l Inr tt lb show ?thesis by (auto dest: append_basket_other)
          next
            case ab: (Inr bd')
            show ?thesis
            proof (cases "under env bd'")
              case u: False
              with acc True l Inr tt lb ab show ?thesis by simp
            next
              case u: True
              with acc True l Inr tt lb ab
              have "accumulate env toget counters branchname dt br trs' (pi + 1) (0 + 1) bd' = Inl e"
                by simp
              from "1.IH"(1)[OF True l Inr[unfolded tt] refl lb ab _ uo this] u show ?thesis by simp
            qed
          qed
        qed
      qed
    qed
  qed
qed


lemma candidate_cannot_satisfy:
  assumes "\<forall>p e. uopen env p = Inl e \<longrightarrow> \<not> is_CannotSatisfy e"
    and "candidate env toget counters st (bn, dt) = Inl (CannotSatisfy b entryi p)"
  shows "bn = b \<and> (\<exists>pi bi br trs pi' bi' trs'.
           start_branch env toget counters st b = Inr (pi, bi, entryi, br, trs) \<and>
           accumulate env toget counters b dt br trs pi bi [] = Inr ([], pi', bi', trs') \<and>
           pi' < length (paths env) \<and> p = paths env ! pi')"
proof (cases "start_branch env toget counters st bn")
  case (Inl e)
  with assms(2) start_branch_other[OF assms(1) Inl] show ?thesis
    by (simp add: candidate_def)
next
  case (Inr x)
  obtain pi bi e br trs where x: "x = (pi, bi, e, br, trs)" by (cases x) auto
  show ?thesis
  proof (cases "accumulate env toget counters bn dt br trs pi bi []")
    case (Inl e')
    with assms(2) Inr x accumulate_other[OF assms(1) Inl] show ?thesis
      by (simp add: candidate_def)
  next
    case acc: (Inr y)
    obtain bds pi' bi' trs' where y: "y = (bds, pi', bi', trs')" by (cases y) auto
    from assms(2) Inr x acc y show ?thesis
      by (auto simp: candidate_def Let_def split: if_splits)
  qed
qed

lemma branch_loop_cannot_satisfy:
  assumes "\<forall>p e. uopen env p = Inl e \<longrightarrow> \<not> is_CannotSatisfy e"
  shows "branch_loop env toget counters st bds acc = Inl (CannotSatisfy b entryi p) \<Longrightarrow>
         \<exists>pre dt post cands st1. bds = pre @ (b, dt) # post \<and>
            branch_loop env toget counters st pre acc = Inr (cands, st1) \<and>
            candidate env toget counters st1 (b, dt) = Inl (CannotSatisfy b entryi p)"
proof (induction bds arbitrary: st acc)
  case Nil
  then show ?case by simp
next
  case (Cons bd bds)
  obtain bn dt where bd: "bd = (bn, dt)" by (cases bd)
  show ?case
  proof (cases "candidate env toget counters st bd")
    case (Inl e)
    with Cons.prems have e: "e = CannotSatisfy b entryi p" by simp
    from candidate_cannot_satisfy[OF assms Inl[unfolded bd e]] have "bn = b" by blast
    with Inl e bd have "bd # bds = [] @ (b, dt) # bds \<and>
        branch_loop env toget counters st [] acc = Inr (acc, st) \<and>
        candidate env toget counters st (b, dt) = Inl (CannotSatisfy b entryi p)"
      by simp
    then show ?thesis by blast
  next
    case (Inr x)
    obtain c st' where x: "x = (c, st')" by (cases x)
    from Cons.prems Inr x
    have "branch_loop env toget counters st' bds (acc @ [c]) = Inl (CannotSatisfy b entryi p)"
      by simp
    from Cons.IH[OF this] obtain pre dt' post cands st1 where
      1: "bds = pre @ (b, dt') # post" and
      2: "branch_loop env toget counters st' pre (acc @ [c]) = Inr (cands, st1)" and
      3: "candidate env toget counters st1 (b, dt') = Inl (CannotSatisfy b entryi p)"
      by blast
    from 1 2 Inr x have "bd # bds = (bd # pre) @ (b, dt') # post \<and>
        branch_loop env toget counters st (bd # pre) acc = Inr (cands, st1)"
      by simp
    with 3 show ?thesis by blast
  qed
qed

lemma drop_trees_other: "drop_trees trs p = Inl e \<Longrightarrow> \<not> is_CannotSatisfy e"
  by (auto simp: drop_trees_def range_pathi_def bindE_def split: if_splits list.splits option.splits)

lemma fill_step_cannot_satisfy:
  assumes "\<forall>cs e. by_choice env cs = Inl e \<longrightarrow> \<not> is_CannotSatisfy e"
    and "fill_step env toget counters st = Inl (CannotSatisfy b entryi p)"
  shows "branch_loop env toget counters st toget [] = Inl (CannotSatisfy b entryi p)"
proof (cases "branch_loop env toget counters st toget []")
  case (Inl e)
  with assms(2) show ?thesis by (simp add: fill_step_def)
next
  case (Inr x)
  obtain pn st1 where x: "x = (pn, st1)" by (cases x)
  show ?thesis
  proof (cases "by_choice env pn")
    case (Inl e)
    from assms(1) Inl have "\<not> is_CannotSatisfy e" by blast
    with assms(2) Inr x Inl show ?thesis by (auto simp: fill_step_def)
  next
    case c: (Inr c)
    with assms(2) Inr x show ?thesis
      by (auto simp: fill_step_def bindE_def split: sum.splits dest: drop_trees_other)
  qed
qed

lemma loop_cond_other:
  assumes "\<forall>p e. uopen env p = Inl e \<longrightarrow> \<not> is_CannotSatisfy e"
    and "loop_cond env toget counters st = Inl e"
  shows "\<not> is_CannotSatisfy e"
  using assms(2) tree_other[OF assms(1)]
  by (auto simp: loop_cond_def bindE_def last_range_def split: if_splits sum.splits)

lemma mapE_arg_numentries: "mapE arg_numentries (map PartitionArg ps) = Inr (map Partition_numentries ps)"
  by (induction ps) auto

lemma mapE_arg_partition: "mapE arg_partition (map PartitionArg ps) = Inr ps"
  by (induction ps) auto

lemma PartitionSet_init_other:
  "PartitionSet_init tp bd bc n m (map PartitionArg ps) = Inl e \<Longrightarrow> \<not> is_CannotSatisfy e"
  by (auto simp: PartitionSet_init_def mapE_arg_numentries mapE_arg_partition split: if_splits)

lemma fill_loop_cannot_satisfy:
  assumes "\<forall>p e. uopen env p = Inl e \<longrightarrow> \<not> is_CannotSatisfy e"
  shows "fill_loop n env toget counters st = Some (Inl (CannotSatisfy b entryi p)) \<Longrightarrow>
         \<exists>k st' trs. k < n \<and> run_steps k env toget counters st = Some st' \<and>
            loop_cond env toget counters st' = Inr (True, trs) \<and>
            fill_step env toget counters (st'\<lparr>trees := trs\<rparr>) = Inl (CannotSatisfy b entryi p)"
proof (induction n arbitrary: st)
  case 0
  then show ?case by simp
next
  case (Suc n)
  show ?case
  proof (cases "loop_cond env toget counters st")
    case (Inl e)
    with Suc.prems loop_cond_other[OF assms Inl] show ?thesis by auto
  next
    case (Inr x)
    obtain go trs where x: "x = (go, trs)" by (cases x)
    show ?thesis
    proof (cases go)
      case False
      with Suc.prems Inr x show ?thesis by (auto dest: PartitionSet_init_other)
    next
      case True
      show ?thesis
      proof (cases "fill_step env toget counters (st\<lparr>trees := trs\<rparr>)")
        case (Inl e)
        with Suc.prems Inr x True have e: "e = CannotSatisfy b entryi p" by simp
        have "0 < Suc n \<and> run_steps 0 env toget counters st = Some st \<and>
            loop_cond env toget counters st = Inr (True, trs) \<and>
            fill_step env toget counters (st\<lparr>trees := trs\<rparr>) = Inl (CannotSatisfy b entryi p)"
          using Inr x True Inl e by simp
        then show ?thesis by blast
      next
        case st': (Inr st')
        with Suc.prems Inr x True
        have "fill_loop n env toget counters st' = Some (Inl (CannotSatisfy b entryi p))" by simp
        from Suc.IH[OF this] obtain k st'' trs' where
          k: "k < n" "run_steps k env toget counters st' = Some st''"
          "loop_cond env toget counters st'' = Inr (True, trs')"
          "fill_step env toget counters (st''\<lparr>trees := trs'\<rparr>) = Inl (CannotSatisfy b entryi p)"
          by blast
        have "Suc k < Suc n \<and> run_steps (Suc k) env toget counters st = Some st''"
          using k Inr x True st' by simp
        with k show ?thesis by blast
      qed
    qed
  qed
qed

subsection \<open>A growth that ends with no basket\<close>

text \<open>
  A growth keeps the baskets it was given, so one that ends with no basket ended
  at its first basket: that basket, at the position the growth returns, alone
  violates \<open>under\<close>.
\<close>

lemma append_basket_nonempty: "append_basket env b dt br pi bi bds = Inr bds' \<Longrightarrow> bds' = butlast bds' @ [last bds'] \<and> butlast bds' = bds"
  by (auto simp: append_basket_def bindE_def Let_def split: if_splits sum.splits)

lemma accumulate_grows:
  "accumulate env toget counters b dt br trs pi bi bds = Inr (res, pi', bi', trs') \<Longrightarrow>
   bds \<noteq> [] \<Longrightarrow> res \<noteq> []"
proof (induction env toget counters b dt br trs pi bi bds rule: accumulate.induct)
  case (1 env toget counters branchname dt br trs pi bi basketdata)
  note acc = "1.prems"(1)[unfolded accumulate.simps[of env toget counters branchname dt br trs pi bi basketdata]]
  show ?case
  proof (cases "numbaskets br \<le> bi")
    case False
    then obtain bd' where ab: "append_basket env branchname dt br pi bi basketdata = Inr bd'"
      using acc by (auto split: sum.splits)
    from append_basket_nonempty[OF ab] have ne: "bd' \<noteq> []" and bl: "butlast bd' = basketdata"
      by auto
    show ?thesis
    proof (cases "under env bd'")
      case True
      with acc False ab
      have "accumulate env toget counters branchname dt br trs pi (bi + 1) bd' = Inr (res, pi', bi', trs')"
        by simp
      from "1.IH"(2)[OF False ab _ this ne] True show ?thesis by simp
    next
      case u: False
      with acc False ab bl "1.prems"(2) show ?thesis by auto
    qed
  next
    case True
    show ?thesis
    proof (cases "length (paths env) \<le> pi + 1")
      case l: True
      with acc True "1.prems"(2) show ?thesis by auto
    next
      case l: False
      with acc True obtain t trs1 basket bd' where
        tr: "tree env toget counters trs (pi + 1) = Inr (t, trs1)" and
        lb: "lookup_branch t branchname = Inr basket" and
        ab: "append_basket env branchname dt br (pi + 1) 0 basketdata = Inr bd'"
        by (auto split: sum.splits)
      from append_basket_nonempty[OF ab] have ne: "bd' \<noteq> []" and bl: "butlast bd' = basketdata"
        by auto
      show ?thesis
      proof (cases "under env bd'")
        case u: False
        with acc True l tr lb ab bl "1.prems"(2) show ?thesis by auto
      next
        case u: True
        with acc True l tr lb ab
        have "accumulate env toget counters branchname dt br trs1 (pi + 1) (0 + 1) bd' = Inr (res, pi', bi', trs')"
          by simp
        from "1.IH"(1)[OF True l tr refl lb ab _ this ne] u show ?thesis by simp
      qed
    qed
  qed
qed

lemma accumulate_zero_first_violates:
  assumes "accumulate env toget counters b dt br trs pi bi [] = Inr ([], pi', bi', trs')"
    and "pi' < length (paths env)"
  shows "\<exists>x. append_basket env b dt br pi' bi' [] = Inr [x] \<and> \<not> under env [x]"
proof -
  note acc = assms(1)[unfolded accumulate.simps[of env toget counters b dt br trs pi bi "[]"]]
  show ?thesis
  proof (cases "numbaskets br \<le> bi")
    case False
    then obtain bd' where ab: "append_basket env b dt br pi bi [] = Inr bd'"
      using acc by (auto split: sum.splits)
    from append_basket_nonempty[OF ab] have ne: "bd' \<noteq> []" and bl: "butlast bd' = []"
      by auto
    then have one: "bd' = [last bd']" by (metis append_butlast_last_id append_Nil)
    show ?thesis
    proof (cases "under env bd'")
      case True
      with acc False ab
      have "accumulate env toget counters b dt br trs pi (bi + 1) bd' = Inr ([], pi', bi', trs')"
        by simp
      from accumulate_grows[OF this ne] show ?thesis by simp
    next
      case u: False
      with acc False ab have "pi' = pi" "bi' = bi" by auto
      with ab u one show ?thesis by metis
    qed
  next
    case True
    show ?thesis
    proof (cases "length (paths env) \<le> pi + 1")
      case l: True
      with acc True assms(2) show ?thesis by auto
    next
      case l: False
      with acc True obtain t trs1 basket bd' where
        tr: "tree env toget counters trs (pi + 1) = Inr (t, trs1)" and
        lb: "lookup_branch t b = Inr basket" and
        ab: "append_basket env b dt br (pi + 1) 0 [] = Inr bd'"
        by (auto split: sum.splits)
      from append_basket_nonempty[OF ab] have ne: "bd' \<noteq> []" and bl: "butlast bd' = []"
        by auto
      then have one: "bd' = [last bd']" by (metis append_butlast_last_id append_Nil)
      show ?thesis
      proof (cases "under env bd'")
        case u: False
        with acc True l tr lb ab have "pi' = pi + 1" "bi' = 0" by auto
        with ab u one show ?thesis by metis
      next
        case u: True
        with acc True l tr lb ab
        have "accumulate env toget counters b dt br trs1 (pi + 1) (0 + 1) bd' = Inr ([], pi', bi', trs')"
          by simp
        from accumulate_grows[OF this ne] show ?thesis by simp
      qed
    qed
  qed
qed

subsection \<open>When \<open>fill\<close> raises the error of line 319\<close>

lemma fill_raises_cannot_satisfy:
  assumes "paths env = p0 # ps" and "uopen env p0 = Inr t0"
    and "run_steps k env (selection_of env t0) (dict_of (counter t0))
           \<lparr>trees = [(0, t0)], fs_partitions = [], partitioni = 0, basketi = 0\<rparr> = Some st"
    and "loop_cond env (selection_of env t0) (dict_of (counter t0)) st = Inr (True, trs)"
    and "selection_of env t0 = pre @ (b, dt) # post"
    and "branch_loop env (selection_of env t0) (dict_of (counter t0)) (st\<lparr>trees := trs\<rparr>) pre [] =
           Inr (cands, st1)"
    and "candidate env (selection_of env t0) (dict_of (counter t0)) st1 (b, dt) = Inl e"
    and "k < n"
  shows "fill n env = Some (Inl e)"
proof -
  let ?tg = "selection_of env t0" and ?cs = "dict_of (counter t0)"
  let ?init = "\<lparr>trees = [(0, t0)], fs_partitions = [], partitioni = 0, basketi = 0\<rparr>"
  define m where "m = n - Suc k"
  have n: "n = k + Suc m" using assms(8) by (simp add: m_def)
  have "branch_loop env ?tg ?cs (st\<lparr>trees := trs\<rparr>) (pre @ (b, dt) # post) [] = Inl e"
    unfolding branch_loop_append using assms(6,7) by simp
  then have "fill_step env ?tg ?cs (st\<lparr>trees := trs\<rparr>) = Inl e"
    unfolding fill_step_def assms(5)[symmetric] by simp
  then have A: "fill_loop (Suc m) env ?tg ?cs st = Some (Inl e)"
    using assms(4) by simp
  have B: "fill_loop (k + Suc m) env ?tg ?cs ?init = fill_loop (Suc m) env ?tg ?cs st"
    by (rule fill_loop_run_steps[OF assms(3)])
  have C: "fill n env = fill_loop (k + Suc m) env ?tg ?cs ?init"
    using assms(1,2) n by (simp add: fill_def del: fill_loop.simps)
  show ?thesis unfolding C B A ..
qed

text \<open>
  Claim C6, as amended. \<open>fill\<close> raises the error of line 319, naming branch \<open>b\<close>, entry
  \<open>entryi\<close> and path \<open>p\<close>, if and only if in some iteration \<open>k\<close> of the loop the growth of
  branch \<open>b\<close>, started at entry \<open>entryi\<close>, ends with zero baskets at a basket of the
  listed file \<open>p\<close>: the first basket \<open>x\<close> of the growth already violates \<open>under\<close>. The
  opener and the \<open>by\<close> function are supposed not to raise that error themselves.
\<close>

theorem fill_cannot_satisfy_iff:
  assumes "\<forall>p e. uopen env p = Inl e \<longrightarrow> \<not> is_CannotSatisfy e"
    and "\<forall>cs e. by_choice env cs = Inl e \<longrightarrow> \<not> is_CannotSatisfy e"
  shows "fill n env = Some (Inl (CannotSatisfy b entryi p)) \<longleftrightarrow>
     (\<exists>p0 ps t0 k st trs pre dt post cands st1 pi bi br trs1 pi' bi' trs' x.
        paths env = p0 # ps \<and> uopen env p0 = Inr t0 \<and> k < n \<and>
        run_steps k env (selection_of env t0) (dict_of (counter t0))
          \<lparr>trees = [(0, t0)], fs_partitions = [], partitioni = 0, basketi = 0\<rparr> = Some st \<and>
        loop_cond env (selection_of env t0) (dict_of (counter t0)) st = Inr (True, trs) \<and>
        selection_of env t0 = pre @ (b, dt) # post \<and>
        branch_loop env (selection_of env t0) (dict_of (counter t0)) (st\<lparr>trees := trs\<rparr>) pre [] =
          Inr (cands, st1) \<and>
        start_branch env (selection_of env t0) (dict_of (counter t0)) st1 b =
          Inr (pi, bi, entryi, br, trs1) \<and>
        accumulate env (selection_of env t0) (dict_of (counter t0)) b dt br trs1 pi bi [] =
          Inr ([], pi', bi', trs') \<and>
        pi' < length (paths env) \<and> p = paths env ! pi' \<and>
        append_basket env b dt br pi' bi' [] = Inr [x] \<and> \<not> under env [x])"
    (is "?L \<longleftrightarrow> ?R")
proof
  assume ?R
  then obtain p0 ps t0 k st trs pre dt post cands st1 pi bi br trs1 pi' bi' trs' x where
    h: "paths env = p0 # ps" "uopen env p0 = Inr t0" "k < n"
      "run_steps k env (selection_of env t0) (dict_of (counter t0))
          \<lparr>trees = [(0, t0)], fs_partitions = [], partitioni = 0, basketi = 0\<rparr> = Some st"
      "loop_cond env (selection_of env t0) (dict_of (counter t0)) st = Inr (True, trs)"
      "selection_of env t0 = pre @ (b, dt) # post"
      "branch_loop env (selection_of env t0) (dict_of (counter t0)) (st\<lparr>trees := trs\<rparr>) pre [] =
          Inr (cands, st1)"
      "start_branch env (selection_of env t0) (dict_of (counter t0)) st1 b =
          Inr (pi, bi, entryi, br, trs1)"
      "accumulate env (selection_of env t0) (dict_of (counter t0)) b dt br trs1 pi bi [] =
          Inr ([], pi', bi', trs')"
      "pi' < length (paths env)" "p = paths env ! pi'"
      "append_basket env b dt br pi' bi' [] = Inr [x]" "\<not> under env [x]"
    by (elim exE conjE)
  from candidate_zero_baskets[OF h(8) h(9)] h(10,11)
  have "candidate env (selection_of env t0) (dict_of (counter t0)) st1 (b, dt) =
          Inl (CannotSatisfy b entryi p)"
    by simp
  from fill_raises_cannot_satisfy[OF h(1,2,4,5,6,7) this h(3)] show ?L .
next
  assume L: ?L
  show ?R
  proof (cases "paths env")
    case Nil
    with L show ?thesis by (simp add: fill_def)
  next
    case (Cons p0 ps)
    show ?thesis
    proof (cases "uopen env p0")
      case (Inl e)
      from assms(1) Inl have "\<not> is_CannotSatisfy e" by blast
      with L Cons Inl show ?thesis by (auto simp: fill_def)
    next
      case (Inr t0)
      let ?tg = "selection_of env t0" and ?cs = "dict_of (counter t0)"
      let ?init = "\<lparr>trees = [(0, t0)], fs_partitions = [], partitioni = 0, basketi = 0\<rparr>"
      from L Cons Inr have "fill_loop n env ?tg ?cs ?init = Some (Inl (CannotSatisfy b entryi p))"
        by (simp add: fill_def)
      from fill_loop_cannot_satisfy[OF assms(1) this] obtain k st trs where
        k: "k < n" "run_steps k env ?tg ?cs ?init = Some st"
          "loop_cond env ?tg ?cs st = Inr (True, trs)"
          "fill_step env ?tg ?cs (st\<lparr>trees := trs\<rparr>) = Inl (CannotSatisfy b entryi p)"
        by blast
      from fill_step_cannot_satisfy[OF assms(2) k(4)]
      have "branch_loop env ?tg ?cs (st\<lparr>trees := trs\<rparr>) ?tg [] = Inl (CannotSatisfy b entryi p)" .
      from branch_loop_cannot_satisfy[OF assms(1) this] obtain pre dt post cands st1 where
        b: "?tg = pre @ (b, dt) # post"
          "branch_loop env ?tg ?cs (st\<lparr>trees := trs\<rparr>) pre [] = Inr (cands, st1)"
          "candidate env ?tg ?cs st1 (b, dt) = Inl (CannotSatisfy b entryi p)"
        by blast
      from candidate_cannot_satisfy[OF assms(1) b(3)] obtain pi bi br trs1 pi' bi' trs' where
        c: "start_branch env ?tg ?cs st1 b = Inr (pi, bi, entryi, br, trs1)"
          "accumulate env ?tg ?cs b dt br trs1 pi bi [] = Inr ([], pi', bi', trs')"
          "pi' < length (paths env)" "p = paths env ! pi'"
        by blast
      from accumulate_zero_first_violates[OF c(2) c(3)] obtain x where
        x: "append_basket env b dt br pi' bi' [] = Inr [x]" "\<not> under env [x]"
        by blast
      from Cons Inr k(1,2,3) b(1,2) c x show ?thesis
        by (intro exI conjI) assumption+
    qed
  qed
qed

text \<open>
  One file, and an \<open>under\<close> that rejects every list: the first basket of branch
  \<open>x\<close> violates it, and \<open>fill\<close> raises the error of line 319.
\<close>

theorem fill_cannot_satisfy_iff_witness:
  "accumulate ex_tight [(''x'', ''int32'')] [] ''x'' ''int32'' ex_branch_a [(0, ex_tree_a)] 0 0 [] =
     Inr ([], 0, 0, [(0, ex_tree_a)]) \<and>
   fill 1 ex_tight = Some (Inl (CannotSatisfy ''x'' 0 ''a.root''))"
proof -
  let ?tg = "selection_of ex_tight ex_tree_a"
  let ?cs = "dict_of (counter ex_tree_a)"
  let ?st = "\<lparr>trees = [(0, ex_tree_a)], fs_partitions = [], partitioni = 0, basketi = 0\<rparr>"
  have tg: "?tg = [(''x'', ''int32'')]" by code_simp
  have cs: "?cs = []" by code_simp
  have u: "\<forall>p e. uopen ex_tight p = Inl e \<longrightarrow> \<not> is_CannotSatisfy e"
    by (auto simp: ex_tight_def ex_open_def split: if_splits)
  have c: "\<forall>cs e. by_choice ex_tight cs = Inl e \<longrightarrow> \<not> is_CannotSatisfy e"
  proof (intro allI impI)
    fix cs e assume "by_choice ex_tight cs = Inl e"
    then show "\<not> is_CannotSatisfy e" by (cases cs) (auto simp: ex_tight_def)
  qed
  have 1: "paths ex_tight = ''a.root'' # []" by (simp add: ex_tight_def)
  have 2: "uopen ex_tight ''a.root'' = Inr ex_tree_a" by code_simp
  have 3: "(0::nat) < 1" by simp
  have 4: "run_steps 0 ex_tight ?tg ?cs ?st = Some ?st" by simp
  have 5: "loop_cond ex_tight ?tg ?cs ?st = Inr (True, [(0, ex_tree_a)])" by code_simp
  have 6: "?tg = [] @ (''x'', ''int32'') # []" by (simp add: tg)
  have 7: "branch_loop ex_tight ?tg ?cs (?st\<lparr>trees := [(0, ex_tree_a)]\<rparr>) [] [] = Inr ([], ?st)"
    by simp
  have 8: "start_branch ex_tight ?tg ?cs ?st ''x'' = Inr (0, 0, 0, ex_branch_a, [(0, ex_tree_a)])"
    by code_simp
  have 9: "accumulate ex_tight ?tg ?cs ''x'' ''int32'' ex_branch_a [(0, ex_tree_a)] 0 0 [] =
      Inr ([], 0, 0, [(0, ex_tree_a)])"
    by code_simp
  have 10: "(0::nat) < length (paths ex_tight)" by (simp add: ex_tight_def)
  have 11: "''a.root'' = paths ex_tight ! 0" by (simp add: ex_tight_def)
  from accumulate_zero_first_violates[OF 9 10] obtain x where
    12: "append_basket ex_tight ''x'' ''int32'' ex_branch_a 0 0 [] = Inr [x]" and
    13: "\<not> under ex_tight [x]"
    by blast
  have "fill 1 ex_tight = Some (Inl (CannotSatisfy ''x'' 0 ''a.root''))"
    unfolding fill_cannot_satisfy_iff[OF u c]
    using 1 2 3 4 5 6 7 8 9 10 11 12 13 by (intro exI conjI) assumption+
  with 9[unfolded tg cs] show ?thesis by (rule conjI)
qed

section \<open>Properties of \<open>iterator\<close>\<close>

declare emit.simps [simp del]

lemma emit_inv: "it_inv ps st \<Longrightarrow> emit ot ps st = (r, st') \<Longrightarrow> it_inv ps st'"
proof (induction ot ps st rule: emit.induct)
  case (1 ot ps st)
  show ?case
  proof (cases "nextpartition st < length (partitions ps) \<and> complete ps (treedata st) (nextpartition st)")
    case False
    with "1.prems" show ?thesis by (auto simp: emit.simps[of ot ps st] split: if_splits)
  next
    case True
    show ?thesis
    proof (cases "output_of ot ps (treedata st) (nextpartition st)")
      case (Inl e)
      with True "1.prems" show ?thesis by (simp add: emit.simps[of ot ps st])
    next
      case (Inr b)
      obtain v td' where b: "b = (v, td')" by (cases b)
      let ?st = "st\<lparr>treedata := td',
                        yields := yields st @
                          [\<lparr>y_index = nextpartition st, y_treedata = treedata st, y_value = v\<rparr>],
                        nextpartition := nextpartition st + 1\<rparr>"
      have e: "emit ot ps ?st = (r, st')"
        using "1.prems"(2) True Inr b by (simp add: emit.simps[of ot ps st])
      have i: "it_inv ps ?st"
        using "1.prems"(1) True by (auto simp: it_inv_def)
      from "1.IH"[OF _ _ Inr[unfolded b] refl i e] True show ?thesis by simp
    qed
  qed
qed


lemma flush_tree_keeps:
  "flush_tree rd st = Inr st' \<Longrightarrow> yields st' = yields st \<and> nextpartition st' = nextpartition st"
  by (auto simp: flush_tree_def bindE_def split: option.splits sum.splits)

lemma walk_ranges_keeps:
  "walk_ranges rd st frs = Inr st' \<Longrightarrow> yields st' = yields st \<and> nextpartition st' = nextpartition st"
proof (induction frs arbitrary: st)
  case Nil
  then show ?case by simp
next
  case (Cons fr frs)
  show ?case
  proof (cases "oldpath st \<noteq> Some (path fr)")
    case False
    with Cons.prems Cons.IH show ?thesis by fastforce
  next
    case True
    with Cons.prems obtain st1 t where f: "flush_tree rd st = Inr st1" and o: "r_open rd (path fr) = Inr t"
      by (auto simp: bindE_def split: sum.splits)
    with True Cons.prems have
      "walk_ranges rd (st1\<lparr>cur_tree := Some t, entries := [],
          entries := [] @ [(entrystart fr, entryend fr)], oldpath := Some (path fr)\<rparr>) frs = Inr st'"
      by simp
    from Cons.IH[OF this] flush_tree_keeps[OF f] show ?thesis by simp
  qed
qed

lemma it_inv_keeps: "it_inv ps st \<Longrightarrow> yields st' = yields st \<Longrightarrow> nextpartition st' = nextpartition st \<Longrightarrow> it_inv ps st'"
  by (simp add: it_inv_def)

lemma walk_partitions_inv:
  "it_inv ps st \<Longrightarrow> walk_partitions rd ot ps st pl = (r, st') \<Longrightarrow> it_inv ps st'"
proof (induction pl arbitrary: st)
  case Nil
  then show ?case by simp
next
  case (Cons p pl)
  show ?case
  proof (cases "walk_ranges rd st (ranges p)")
    case (Inl e)
    with Cons.prems show ?thesis by simp
  next
    case (Inr st1)
    from walk_ranges_keeps[OF Inr] Cons.prems(1) have i1: "it_inv ps st1"
      by (auto intro: it_inv_keeps)
    obtain r2 st2 where e: "emit ot ps st1 = (r2, st2)" by (cases "emit ot ps st1")
    from emit_inv[OF i1 e] have i2: "it_inv ps st2" .
    show ?thesis
    proof (cases r2)
      case None
      with Cons.prems(2) Inr e have "walk_partitions rd ot ps st2 pl = (r, st')" by simp
      from Cons.IH[OF i2 this] show ?thesis .
    next
      case (Some err)
      with Cons.prems(2) Inr e i2 show ?thesis by simp
    qed
  qed
qed

lemma iterator_inv:
  fixes rd :: "('a, 't) reader"
  assumes "iterator rd ot ps = (r, ys)"
  shows "\<exists>st :: ('a, 't) it_state. it_inv ps st \<and> ys = yields st"
proof -
  let ?st0 = "\<lparr>treedata = [], oldpath = None, cur_tree = None, entries = [],
                 nextpartition = 0, yields = []\<rparr> :: ('a, 't) it_state"
  have i0: "it_inv ps ?st0" by (simp add: it_inv_def)
  show ?thesis
  proof (cases "if ot = OutNamedtuple then namedtuple_fields ps else None")
    case (Some e)
    with assms have "ys = yields ?st0" by (simp add: iterator_def)
    with i0 show ?thesis by blast
  next
    case None
    obtain r1 st1 where w: "walk_partitions rd ot ps ?st0 (partitions ps) = (r1, st1)"
      by (cases "walk_partitions rd ot ps ?st0 (partitions ps)")
    from walk_partitions_inv[OF i0 w] have i1: "it_inv ps st1" .
    show ?thesis
    proof (cases r1)
      case (Some e)
      with assms None w have "ys = yields st1" by (simp add: iterator_def)
      with i1 show ?thesis by blast
    next
      case r1: None
      show ?thesis
      proof (cases "flush_tree rd st1")
        case (Inl e)
        with assms None w r1 have "ys = yields st1" by (simp add: iterator_def)
        with i1 show ?thesis by blast
      next
        case (Inr st2)
        from flush_tree_keeps[OF Inr] i1 have i2: "it_inv ps st2" by (auto intro: it_inv_keeps)
        obtain r3 st3 where e: "emit ot ps st2 = (r3, st3)" by (cases "emit ot ps st2")
        from emit_inv[OF i2 e] have i3: "it_inv ps st3" .
        from assms None w r1 Inr e have "ys = yields st3" by (simp add: iterator_def)
        with i3 show ?thesis by blast
      qed
    qed
  qed
qed

text \<open>\<open>complete\<close> in plain terms.\<close>

lemma complete_iff:
  "complete ps td n \<longleftrightarrow>
     (\<forall>fr \<in> set (ranges (partitions ps ! n)).
        \<exists>l arrs. map_of td (path fr) = Some l \<and> (entrystart fr, entryend fr, arrs) \<in> set l)"
  by (fastforce simp: complete_def list_all_iff list_ex_iff split: option.splits)

text \<open>
  Claim C8. Whatever the reader returns and however the generator ends, the
  values it has yielded are the partitions of index 0, 1, 2, ... in this order
  with no index left out, so a partition is yielded only after all partitions of
  smaller index; and when a partition was yielded, each of its ranges was in
  \<open>treedata\<close> under its path with exactly its \<open>entrystart\<close> and \<open>entryend\<close>.
\<close>

theorem iterator_in_order:
  fixes rd :: "('a, 't) reader"
  assumes "iterator rd ot ps = (r, ys)"
  shows "map y_index ys = [0..<length ys] \<and> length ys \<le> length (partitions ps) \<and>
         (\<forall>y \<in> set ys. \<forall>fr \<in> set (ranges (partitions ps ! y_index y)).
            \<exists>l arrs. map_of (y_treedata y) (path fr) = Some l \<and>
                     (entrystart fr, entryend fr, arrs) \<in> set l)"
proof -
  from iterator_inv[OF assms] obtain st :: "('a, 't) it_state"
    where i: "it_inv ps st" and ys: "ys = yields st"
    by blast
  from i have m: "map y_index (yields st) = [0..<nextpartition st]"
    and n: "nextpartition st \<le> length (partitions ps)"
    and c: "\<forall>y \<in> set (yields st). complete ps (y_treedata y) (y_index y)"
    by (simp_all add: it_inv_def)
  from m have l: "length (yields st) = nextpartition st"
    by (metis length_map length_upt minus_nat.diff_0)
  from m l n c show ?thesis unfolding ys by (simp add: complete_iff)
qed

text \<open>On the example both partitions are yielded, 0 before 1.\<close>

theorem iterator_in_order_witness:
  "fst (iterator ex_reader OutDict ex_partitionset) = None \<and>
   map y_index (snd (iterator ex_reader OutDict ex_partitionset)) = [0, 1]"
proof -
  obtain r ys where e: "iterator ex_reader OutDict ex_partitionset = (r, ys)"
    by (cases "iterator ex_reader OutDict ex_partitionset")
  have l: "length (snd (iterator ex_reader OutDict ex_partitionset)) = 2" by code_simp
  have f: "fst (iterator ex_reader OutDict ex_partitionset) = None" by code_simp
  from iterator_in_order[OF e] have "map y_index ys = [0..<length ys]" by blast
  with l e f show ?thesis by (simp add: upt_rec)
qed

section \<open>Properties of the writer\<close>

subsection \<open>Reading the buffer\<close>

lemma fdata_write_at:
  "fdata (write_at f p bs) i = (if p \<le> i \<and> i < p + int (length bs) then bs ! nat (i - p) else fdata f i)"
  by (simp add: write_at_def)

lemma fdata_resize: "fdata (resize f n) i = (if i < n then fdata f i else 0)"
  by (simp add: resize_def)

lemma fdata_copy_slice:
  "fdata (copy_slice f dst src n) i =
     (if dst \<le> i \<and> i < dst + n then fdata f (src + (i - dst)) else fdata f i)"
  by (simp add: copy_slice_def)

lemma length_be32 [simp]: "length (be32 n) = 4"
  by (simp add: be32_def Let_def)

lemma read_at_write_at_same: "n = length bs \<Longrightarrow> read_at (write_at f p bs) p n = bs"
  by (auto simp: read_at_def fdata_write_at intro!: nth_equalityI)

lemma read_at_write_at_disjoint:
  "q + int n \<le> p \<or> p + int (length bs) \<le> q \<Longrightarrow> read_at (write_at f p bs) q n = read_at f q n"
  by (auto simp: read_at_def fdata_write_at)

lemma read_at_copy_slice_inside:
  "dst \<le> q \<Longrightarrow> q + int n \<le> dst + m \<Longrightarrow>
   read_at (copy_slice f dst src m) q n = read_at f (src + (q - dst)) n"
  by (auto simp: read_at_def fdata_copy_slice algebra_simps)

lemma read_at_copy_slice_disjoint:
  "q + int n \<le> dst \<or> dst + m \<le> q \<Longrightarrow> read_at (copy_slice f dst src m) q n = read_at f q n"
  by (auto simp: read_at_def fdata_copy_slice)

lemma read_at_resize: "q + int n \<le> m \<Longrightarrow> read_at (resize f m) q n = read_at f q n"
  by (auto simp: read_at_def fdata_resize)

subsection \<open>The steps of an insert keep the invariant\<close>

lemmas sink_ops = set_header_def set_key_def set_directoryinfo_def set_strings_def
  set_object_def set_numbers_def put_def

lemma le_header_refl: "le_header h h" by (simp add: le_header_def)
lemma le_header_trans: "le_header a b \<Longrightarrow> le_header b c \<Longrightarrow> le_header a c"
  by (auto simp: le_header_def)

lemma place_object_header: "header (fst (place_object sk w k s)) = header w"
  "directory (fst (place_object sk w k s)) = directory w"
  "directory_pointcheck (fst (place_object sk w k s)) = directory_pointcheck w"
  "expander (fst (place_object sk w k s)) = expander w"
  "expanderpow (fst (place_object sk w k s)) = expanderpow w"
  by (simp_all add: place_object_def sink_ops Let_def)

lemma key_realloc_winv:
  assumes "winv dlen w"
  shows "winv dlen (key_realloc sk w) \<and> le_header (header w) (header (key_realloc sk w))"
  using assms by (auto simp: winv_def le_header_def key_realloc_def sink_ops Let_def)

lemma place_key_winv:
  "winv dlen w \<Longrightarrow> winv dlen (place_key sk w k) \<and> header (place_key sk w k) = header w"
  by (auto simp: winv_def place_key_def sink_ops Let_def)

lemma streamer_realloc_winv:
  assumes "winv dlen w"
  shows "winv dlen (streamer_realloc w) \<and> le_header (header w) (header (streamer_realloc w))"
  using assms by (auto simp: winv_def le_header_def streamer_realloc_def Let_def)

lemma place_streamers_winv:
  assumes "winv dlen w"
  shows "winv dlen (place_streamers sk w) \<and> le_header (header w) (header (place_streamers sk w))"
proof (cases "''TObjString'' \<notin> set (streamers w)")
  case False
  with assms show ?thesis by (simp add: place_streamers_def le_header_refl)
next
  case True
  let ?w0 = "w\<lparr>streamers := streamers w @ [''TObjString'']\<rparr>"
  have "winv dlen ?w0" using assms by (simp add: winv_def)
  from streamer_realloc_winv[OF this] True show ?thesis
    by (auto simp: place_streamers_def sink_ops Let_def winv_def le_header_def)
qed

lemma update_counts_winv:
  "winv dlen w \<Longrightarrow> winv dlen (update_counts sk w) \<and> header (update_counts sk w) = header w"
  by (auto simp: winv_def update_counts_def sink_ops Let_def)

lemma update_header_winv:
  assumes "winv dlen w"
  shows "winv dlen (update_header sk w) \<and> le_header (header w) (header (update_header sk w))"
  using assms by (auto simp: winv_def le_header_def update_header_def sink_ops Let_def)


lemma setitem_winv:
  assumes "winv dlen w"
  shows "winv dlen (setitem sk w k it) \<and>
         successively le_header (map header (w # insert_stages sk w k it))"
proof -
  let ?w0 = "w\<lparr>cursor := fEND (header w)\<rparr>"
  have i0: "winv dlen ?w0" and h0: "header ?w0 = header w"
    using assms by (simp_all add: winv_def)
  show ?thesis
  proof (cases it)
    case OtherItem
    let ?w5 = "update_counts sk ?w0"
    let ?w6 = "update_header sk ?w5"
    from update_counts_winv[OF i0] have i5: "winv dlen ?w5" and h5: "header ?w5 = header w"
      by (simp_all add: h0)
    from update_header_winv[OF i5] have i6: "winv dlen ?w6"
      and h6: "le_header (header w) (header ?w6)"
      by (simp_all add: h5)
    from i6 h6 h5 OtherItem show ?thesis
      by (simp add: setitem_def insert_stages_def Let_def le_header_refl)
  next
    case (TObjString s)
    obtain w1 key where po: "place_object sk ?w0 k s = (w1, key)"
      by (cases "place_object sk ?w0 k s")
    let ?w2 = "key_realloc sk w1"
    let ?w3 = "place_key sk ?w2 key"
    let ?w4 = "place_streamers sk ?w3"
    let ?w5 = "update_counts sk ?w4"
    let ?w6 = "update_header sk ?w5"
    have w1: "w1 = fst (place_object sk ?w0 k s)" using po by simp
    have h1: "header w1 = header w" unfolding w1 by (simp add: place_object_header)
    have i1: "winv dlen w1" using i0 unfolding w1 winv_def by (simp add: place_object_header)
    from key_realloc_winv[OF i1] have i2: "winv dlen ?w2"
      and h2: "le_header (header w1) (header ?w2)" by simp_all
    from place_key_winv[OF i2] have i3: "winv dlen ?w3" and h3: "header ?w3 = header ?w2"
      by simp_all
    from place_streamers_winv[OF i3] have i4: "winv dlen ?w4"
      and h4: "le_header (header ?w3) (header ?w4)" by simp_all
    from update_counts_winv[OF i4] have i5: "winv dlen ?w5" and h5: "header ?w5 = header ?w4"
      by simp_all
    from update_header_winv[OF i5] have i6: "winv dlen ?w6"
      and h6: "le_header (header ?w5) (header ?w6)" by simp_all
    have st: "insert_stages sk w k it = [?w0, w1, ?w2, ?w3, ?w4, ?w5, ?w6]"
      using TObjString po by (simp add: insert_stages_def Let_def)
    have "successively le_header (map header (w # insert_stages sk w k it))"
      unfolding st using h0 h1 h2 h3 h4 h5 h6 by (simp add: le_header_refl)
    moreover have "setitem sk w k it = ?w6" unfolding setitem_def st by simp
    ultimately show ?thesis using i6 by simp
  qed
qed

lemma run_writer_snoc:
  "run_writer sk fn (ops @ [(k, it)]) = setitem sk (run_writer sk fn ops) k it"
  by (simp add: run_writer_def)

lemma run_writer_winv:
  "winv dlen (new_writer sk fn) \<Longrightarrow> winv dlen (run_writer sk fn ops)"
proof (induction ops rule: rev_induct)
  case Nil
  then show ?case by (simp add: run_writer_def)
next
  case (snoc x ops)
  obtain k it where x: "x = (k, it)" by (cases x)
  from snoc setitem_winv[of dlen "run_writer sk fn ops" sk k it] show ?case
    unfolding x run_writer_snoc by simp
qed

lemma new_writer_winv:
  "winv (int (length (ser_directoryinfo sk (directory0 sk fn)))) (new_writer sk fn)"
  by (simp add: new_writer_def sink_ops Let_def winv_def directory0_def)

lemma new_writer_le_header:
  assumes "fSeekFree (Header_new sk (basename fn) 0) \<le> fBEGIN (Header_new sk (basename fn) 0)"
    and "fEND (Header_new sk (basename fn) 0) \<le> fBEGIN (Header_new sk (basename fn) 0)"
  shows "le_header (Header_new sk (basename fn) 0) (header (new_writer sk fn))"
  using assms by (simp add: new_writer_def sink_ops Let_def le_header_def)

text \<open>
  Claim C7. Let a fresh \<open>Header\<close> hold \<open>fSeekFree\<close> and \<open>fEND\<close> not above its
  \<open>fBEGIN\<close> (the class is not among the sources). Then the values the constructor
  assigns to \<open>fSeekFree\<close> and \<open>fEND\<close> (lines 109 and 110, the only assignments it
  makes to them) are not smaller than the fresh ones; and for every writer
  reached by the constructor and any sequence of inserts, through every step of
  one more insert (object, key-list relocation, key, streamer relocation,
  counters, final cursor check) neither field ever gets smaller. The last of
  these states is the writer after the insert.
\<close>

theorem header_never_decreases:
  assumes "fSeekFree (Header_new sk (basename fn) 0) \<le> fBEGIN (Header_new sk (basename fn) 0)"
    and "fEND (Header_new sk (basename fn) 0) \<le> fBEGIN (Header_new sk (basename fn) 0)"
  shows "le_header (Header_new sk (basename fn) 0) (header (new_writer sk fn)) \<and>
         (\<forall>ops k it.
            successively le_header
              (map header (run_writer sk fn ops # insert_stages sk (run_writer sk fn ops) k it)) \<and>
            run_writer sk fn (ops @ [(k, it)]) = last (insert_stages sk (run_writer sk fn ops) k it))"
proof -
  let ?d = "int (length (ser_directoryinfo sk (directory0 sk fn)))"
  have "\<And>ops. winv ?d (run_writer sk fn ops)"
    by (rule run_writer_winv[OF new_writer_winv])
  then have "\<And>ops k it. successively le_header
              (map header (run_writer sk fn ops # insert_stages sk (run_writer sk fn ops) k it))"
    using setitem_winv by blast
  moreover have "\<And>ops k it. run_writer sk fn (ops @ [(k, it)]) =
      last (insert_stages sk (run_writer sk fn ops) k it)"
    by (simp add: run_writer_snoc setitem_def)
  ultimately show ?thesis using new_writer_le_header[OF assms] by blast
qed

lemma setitem_OtherItem_nf:
  "setitem sk w keyname OtherItem =
     w\<lparr>cursor := fEND (header w),
       wfile :=
         write_at
           (write_at
              (write_at
                 (write_at (wfile w) (head_key_end w) (be32 (nkeys w + 1)))
                 (directory_pointcheck w)
                 (ser_directoryinfo sk ((directory w)\<lparr>fNbytesKeys := fEND (header w) - keyend w\<rparr>)))
              (head_key_pointcheck w)
              (ser_key sk ((head_key w)\<lparr>fNbytes := fEND (header w) - keyend w,
                 fKeylen := head_key_end w - head_key_pointcheck w,
                 fObjlen := fEND (header w) - keyend w - (head_key_end w - head_key_pointcheck w)\<rparr>)))
           0 (ser_header sk (bytename w) (header w)),
       nkeys := nkeys w + 1,
       directory := (directory w)\<lparr>fNbytesKeys := fEND (header w) - keyend w\<rparr>,
       head_key := (head_key w)\<lparr>fNbytes := fEND (header w) - keyend w,
                 fKeylen := head_key_end w - head_key_pointcheck w,
                 fObjlen := fEND (header w) - keyend w - (head_key_end w - head_key_pointcheck w)\<rparr>,
       flushes := flushes w + 1\<rparr>"
  by (simp add: setitem_def insert_stages_def update_counts_def update_header_def sink_ops Let_def)

subsection \<open>The steps of an insert as record updates\<close>

lemma length_be16 [simp]: "length (be16 n) = 2"
  by (simp add: be16_def Let_def)

lemma length_pstr [simp]: "length (pstr s) = Suc (length s)"
  by (simp add: pstr_def)

lemma length_ex_ser_key:
  "length (ex_ser_key k) =
     29 + (case ex_key_names (key_class k) of (cls, nm, title, pos) \<Rightarrow> length cls + length nm + length title)"
  by (simp add: ex_ser_key_def split: prod.splits)

lemma length_ex_ser_header [simp]: "length (ex_ser_header nm h) = 63"
  by (simp add: ex_ser_header_def)

lemma length_ex_ser_directoryinfo [simp]: "length (ex_ser_directoryinfo d) = 30"
  by (simp add: ex_ser_directoryinfo_def)

lemma ex_sink_sel [simp]:
  "Header_new ex_sink nm c = \<lparr>fBEGIN = 100, fEND = 0, fSeekFree = 0, fSeekInfo = 0,
                             fNbytesInfo = 0, fNbytesName = 2 * int (length nm) + 36, fCompress = c\<rparr>"
  "key_sizes ex_sink kc = (0, 0, 0)"
  "ser_header ex_sink = ex_ser_header"
  "ser_key ex_sink = ex_ser_key"
  "ser_directoryinfo ex_sink = ex_ser_directoryinfo"
  "length (ser_strings ex_sink nm) = length nm + 2"
  "length (ser_object ex_sink s) = length s + 17"
  "length (ser_allstreamers ex_sink) = 64"
  "length (ser_tobjstring_streamers ex_sink) = 300"
  by (simp_all add: ex_sink_def)

lemma basename_ex: "basename ''/tmp/a.root'' = ''a.root''"
  by (simp add: basename_def)

lemma place_object_nf:
  "place_object sk w k s =
     (w\<lparr>wfile :=
          write_at
            (write_at
               (write_at (wfile w) (cursor w) (ser_key sk (new_key sk (JunkKey k))))
               (cursor w)
               (ser_key sk ((new_key sk (JunkKey k))
                  \<lparr>fKeylen := int (length (ser_key sk (new_key sk (JunkKey k)))),
                   fNbytes := int (length (ser_key sk (new_key sk (JunkKey k)))) +
                              fObjlen (new_key sk (JunkKey k))\<rparr>)))
            (cursor w + int (length (ser_key sk (new_key sk (JunkKey k)))))
            (ser_object sk s),
        cursor := cursor w + int (length (ser_key sk (new_key sk (JunkKey k)))) +
                  int (length (ser_object sk s))\<rparr>,
      new_key sk (StringKey k (cursor w)))"
  by (simp add: place_object_def sink_ops Let_def)

lemma key_realloc_nf:
  "key_realloc sk w =
     (if keylimit w - keyend w < 200 then
        w\<lparr>wfile :=
            write_at
              (copy_slice (resize (wfile w) (fEND (header w) + expander w ^ expanderpow w))
                 (fEND (header w)) (fSeekKeys (directory w)) (expander w))
              (directory_pointcheck w)
              (ser_directoryinfo sk ((directory w)\<lparr>fSeekKeys := fEND (header w)\<rparr>)),
          keyend := fEND (header w) + keyend w - fSeekKeys (directory w),
          directory := (directory w)\<lparr>fSeekKeys := fEND (header w)\<rparr>,
          keylimit := fEND (header w) + expander w ^ expanderpow w,
          header := (header w)\<lparr>fEND := fEND (header w) + expander w ^ expanderpow w,
                               fSeekFree := fEND (header w) + expander w ^ expanderpow w\<rparr>\<rparr>
      else w)"
  by (simp add: key_realloc_def sink_ops Let_def)

lemma place_key_nf:
  "place_key sk w k =
     w\<lparr>wfile :=
         write_at (write_at (wfile w) (keyend w) (ser_key sk k)) (keyend w)
           (ser_key sk (k\<lparr>fKeylen := int (length (ser_key sk k)),
                           fNbytes := int (length (ser_key sk k)) + fObjlen k\<rparr>)),
       keyend := keyend w + int (length (ser_key sk k))\<rparr>"
  by (simp add: place_key_def sink_ops Let_def)

lemma streamer_realloc_nf:
  "streamer_realloc w =
     (if streamerlimit w - streamerend w < 500 then
        w\<lparr>wfile := copy_slice (wfile w) (fEND (header w)) (fSeekInfo (header w)) (expander w),
          streamerend := fEND (header w) + streamerend w - fSeekInfo (header w),
          streamerlimit := fEND (header w) + expander w ^ expanderpow w,
          header := (header w)\<lparr>fSeekInfo := fEND (header w),
                               fEND := fEND (header w) + expander w ^ expanderpow w,
                               fSeekFree := fEND (header w) + expander w ^ expanderpow w\<rparr>\<rparr>
      else w)"
  by (simp add: streamer_realloc_def Let_def)

lemma place_streamers_nf:
  "place_streamers sk w =
     (if ''TObjString'' \<notin> set (streamers w) then
        (streamer_realloc (w\<lparr>streamers := streamers w @ [''TObjString'']\<rparr>))
          \<lparr>wfile := write_at (wfile (streamer_realloc (w\<lparr>streamers := streamers w @ [''TObjString'']\<rparr>)))
                      (streamerend (streamer_realloc (w\<lparr>streamers := streamers w @ [''TObjString'']\<rparr>)))
                      (ser_tobjstring_streamers sk),
            streamerend := streamerend (streamer_realloc (w\<lparr>streamers := streamers w @ [''TObjString'']\<rparr>)) +
                           int (length (ser_tobjstring_streamers sk))\<rparr>
      else w)"
  by (simp add: place_streamers_def sink_ops Let_def)

lemma update_counts_nf:
  "update_counts sk w =
     w\<lparr>wfile :=
         write_at
           (write_at
              (write_at (wfile w) (head_key_end w) (be32 (nkeys w + 1)))
              (directory_pointcheck w)
              (ser_directoryinfo sk ((directory w)\<lparr>fNbytesKeys := fEND (header w) - keyend w\<rparr>)))
           (head_key_pointcheck w)
           (ser_key sk ((head_key w)\<lparr>fNbytes := fEND (header w) - keyend w,
              fKeylen := head_key_end w - head_key_pointcheck w,
              fObjlen := fEND (header w) - keyend w - (head_key_end w - head_key_pointcheck w)\<rparr>)),
       nkeys := nkeys w + 1,
       directory := (directory w)\<lparr>fNbytesKeys := fEND (header w) - keyend w\<rparr>,
       head_key := (head_key w)\<lparr>fNbytes := fEND (header w) - keyend w,
              fKeylen := head_key_end w - head_key_pointcheck w,
              fObjlen := fEND (header w) - keyend w - (head_key_end w - head_key_pointcheck w)\<rparr>\<rparr>"
  by (simp add: update_counts_def sink_ops Let_def)

lemma update_header_nf:
  "update_header sk w =
     w\<lparr>wfile := write_at (wfile w) 0
         (ser_header sk (bytename w)
            (if cursor w > fEND (header w)
             then (header w)\<lparr>fSeekFree := cursor w, fEND := cursor w\<rparr> else header w)),
       header := (if cursor w > fEND (header w)
                  then (header w)\<lparr>fSeekFree := cursor w, fEND := cursor w\<rparr> else header w),
       flushes := flushes w + 1\<rparr>"
  by (simp add: update_header_def sink_ops Let_def)

lemma setitem_TObjString:
  "setitem sk w k (TObjString s) =
     update_header sk (update_counts sk (place_streamers sk
       (place_key sk
          (key_realloc sk (fst (place_object sk (w\<lparr>cursor := fEND (header w)\<rparr>) k s)))
          (snd (place_object sk (w\<lparr>cursor := fEND (header w)\<rparr>) k s)))))"
  by (simp add: setitem_def insert_stages_def Let_def split_def)

subsection \<open>The example, state by state\<close>

lemma length_ex_long_name [simp]: "length ex_long_name = 250"
  by (simp add: ex_long_name_def)

lemmas eval_defs = sink_ops Let_def new_key_def length_ex_ser_key ex_key_names_def basename_ex
lemmas stage_nfs = setitem_TObjString place_object_nf key_realloc_nf place_key_nf
  place_streamers_nf streamer_realloc_nf update_counts_nf update_header_nf new_key_def
  length_ex_ser_key ex_key_names_def
lemmas read_simps = read_at_write_at_same read_at_write_at_disjoint read_at_copy_slice_inside
  read_at_copy_slice_disjoint read_at_resize

lemma ex_w0_fields:
  "header ex_w0 = \<lparr>fBEGIN = 100, fEND = 1286, fSeekFree = 786, fSeekInfo = 178,
      fNbytesInfo = 64, fNbytesName = 48, fCompress = 0\<rparr>"
  "keyend ex_w0 = 786" "keylimit ex_w0 = 1242" "head_key_pointcheck ex_w0 = 742" "head_key_end ex_w0 = 782"
  "nkeys ex_w0 = 0" "streamers ex_w0 = []" "streamerend ex_w0 = 306" "streamerlimit ex_w0 = 806"
  "directory_pointcheck ex_w0 = 148"
  "directory ex_w0 = \<lparr>fNbytesKeys = 0, fNbytesName_dir = 48, fSeekKeys = 742\<rparr>"
  "expander ex_w0 = 500" "expanderpow ex_w0 = 2" "bytename ex_w0 = ''a.root''"
  "key_class (head_key ex_w0) = HeadKey 0 742 ''a.root''"
  by (simp_all add: ex_w0_def new_writer_def eval_defs)

lemma ex_w1_fields:
  "header ex_w1 = \<lparr>fBEGIN = 100, fEND = 1619, fSeekFree = 1619, fSeekInfo = 178,
      fNbytesInfo = 64, fNbytesName = 48, fCompress = 0\<rparr>"
  "keyend ex_w1 = 1099" "keylimit ex_w1 = 1242" "head_key_pointcheck ex_w1 = 742" "head_key_end ex_w1 = 782"
  "nkeys ex_w1 = 1" "streamers ex_w1 = [''TObjString'']" "streamerend ex_w1 = 606" "streamerlimit ex_w1 = 806"
  "directory_pointcheck ex_w1 = 148"
  "directory ex_w1 = \<lparr>fNbytesKeys = 187, fNbytesName_dir = 48, fSeekKeys = 742\<rparr>"
  "expander ex_w1 = 500" "expanderpow ex_w1 = 2" "bytename ex_w1 = ''a.root''"
  "key_class (head_key ex_w1) = HeadKey 0 742 ''a.root''"
  by (simp_all add: ex_w1_def stage_nfs ex_w0_fields)


lemma ex_w1_counter: "read_at (wfile ex_w1) 782 4 = be32 1"
  by (simp add: ex_w1_def stage_nfs ex_w0_fields read_simps)

lemma ex_w2_fields:
  "header ex_w2 = \<lparr>fBEGIN = 100, fEND = 251619, fSeekFree = 251619, fSeekInfo = 178,
      fNbytesInfo = 64, fNbytesName = 48, fCompress = 0\<rparr>"
  "keyend ex_w2 = 2040" "keylimit ex_w2 = 251619" "head_key_pointcheck ex_w2 = 742" "head_key_end ex_w2 = 782"
  "nkeys ex_w2 = 2"
  "directory ex_w2 = \<lparr>fNbytesKeys = 249579, fNbytesName_dir = 48, fSeekKeys = 1619\<rparr>"
  by (simp_all add: ex_w2_def stage_nfs ex_w1_fields)

lemma ex_w2_counter: "read_at (wfile ex_w2) 1659 4 = be32 1"
  by (simp add: ex_w2_def stage_nfs ex_w1_fields read_simps ex_w1_counter)

lemma ex_w2_old_counter: "read_at (wfile ex_w2) 782 4 = be32 2"
  by (simp add: ex_w2_def stage_nfs ex_w1_fields read_simps)

lemma be32_1_2: "be32 1 \<noteq> be32 2"
  by (simp add: be32_def)

lemma ex_run: "run_writer ex_sink ''/tmp/a.root'' ex_two_inserts = ex_w2"
  by (simp add: run_writer_def ex_two_inserts_def ex_w2_def ex_w1_def ex_w0_def)

text \<open>
  Claim C1. After every insert the four bytes that follow the head key at
  \<open>fSeekKeys\<close> should hold the number of inserts. After the two inserts of the
  example, the second of which moved the key list to offset 1619, they hold 1:
  the counter was copied with the key list before it was incremented, and line
  176 then wrote the 2 at \<open>head_key_end\<close>, offset 782 in the old key list, which
  the relocation does not rebase (nor \<open>head_key_pointcheck\<close>, where the head key
  is patched).
\<close>

theorem counter_stale_after_relocation:
  "let w = run_writer ex_sink ''/tmp/a.root'' ex_two_inserts in
     nkeys w = 2 \<and> fSeekKeys (directory w) = 1619 \<and>
     head_key_end w - head_key_pointcheck w = 40 \<and>
     read_at (wfile w) (fSeekKeys (directory w) + (head_key_end w - head_key_pointcheck w)) 4 = be32 1 \<and>
     be32 1 \<noteq> be32 (nkeys w) \<and>
     read_at (wfile w) (head_key_end w) 4 = be32 2 \<and>
     head_key_end w \<noteq> fSeekKeys (directory w) + (head_key_end w - head_key_pointcheck w)"
  by (simp add: ex_run ex_w2_fields ex_w2_counter ex_w2_old_counter be32_1_2)

subsection \<open>The key-list capacity check\<close>

lemma place_object_winv:
  "winv dlen w \<Longrightarrow> winv dlen (fst (place_object sk (w\<lparr>cursor := c\<rparr>) k s))"
  by (simp add: winv_def place_object_nf)

text \<open>
  Claim C5. Let the directory record have a fixed width \<open>dlen\<close>, and let \<open>w1\<close> be
  the writer at the capacity check of an insert (after the object was placed),
  reached from the constructor by any sequence of inserts. If less than 200
  bytes are left between \<open>keyend\<close> and \<open>keylimit\<close>, the step copies the 500 bytes at
  the old \<open>fSeekKeys\<close> to the old \<open>fEND\<close> and leaves every other byte below the
  new end as it was, except the directory record, which holds the new directory
  at its fixed offset; \<open>keyend\<close> keeps its offset in the region, \<open>fSeekKeys\<close> is the
  old \<open>fEND\<close>, \<open>keylimit\<close>, \<open>fEND\<close> and \<open>fSeekFree\<close> are the old \<open>fEND\<close> plus 250000,
  and no other field changes. Otherwise the step changes nothing.
\<close>

theorem key_realloc_effect:
  assumes "\<forall>d. int (length (ser_directoryinfo sk d)) = dlen"
  shows "let w = run_writer sk fn ops;
             w1 = fst (place_object sk (w\<lparr>cursor := fEND (header w)\<rparr>) k s);
             w2 = key_realloc sk w1;
             e = fEND (header w1);
             dpc = directory_pointcheck w1
         in if keylimit w1 - keyend w1 < 200 then
              (\<forall>i. 0 \<le> i \<and> i < 500 \<longrightarrow>
                 fdata (wfile w2) (e + i) = fdata (wfile w1) (fSeekKeys (directory w1) + i)) \<and>
              (\<forall>i. (i < e \<or> e + 500 \<le> i \<and> i < e + 250000) \<and> \<not> (dpc \<le> i \<and> i < dpc + dlen) \<longrightarrow>
                 fdata (wfile w2) i = fdata (wfile w1) i) \<and>
              read_at (wfile w2) dpc (nat dlen) = ser_directoryinfo sk (directory w2) \<and>
              w2 = w1\<lparr>wfile := wfile w2,
                      keyend := e + (keyend w1 - fSeekKeys (directory w1)),
                      directory := (directory w1)\<lparr>fSeekKeys := e\<rparr>,
                      keylimit := e + 250000,
                      header := (header w1)\<lparr>fEND := e + 250000, fSeekFree := e + 250000\<rparr>\<rparr>
            else w2 = w1"
proof -
  define w where "w = run_writer sk fn ops"
  define w1 where "w1 = fst (place_object sk (w\<lparr>cursor := fEND (header w)\<rparr>) k s)"
  define w2 where "w2 = key_realloc sk w1"
  define e where "e = fEND (header w1)"
  define dpc where "dpc = directory_pointcheck w1"
  have dl: "\<And>d. int (length (ser_directoryinfo sk d)) = dlen" using assms by simp
  have "winv (int (length (ser_directoryinfo sk (directory0 sk fn)))) (new_writer sk fn)"
    by (rule new_writer_winv)
  then have "winv dlen (new_writer sk fn)" by (simp add: dl)
  then have "winv dlen w" unfolding w_def by (rule run_writer_winv)
  then have i1: "winv dlen w1" unfolding w1_def by (rule place_object_winv)
  then have ex: "expander w1 = 500" "expanderpow w1 = 2"
    and sk: "fSeekKeys (directory w1) \<le> e" and dp: "dpc + dlen \<le> e"
    by (simp_all add: winv_def e_def dpc_def)
  have main: "if keylimit w1 - keyend w1 < 200 then
              (\<forall>i. 0 \<le> i \<and> i < 500 \<longrightarrow>
                 fdata (wfile w2) (e + i) = fdata (wfile w1) (fSeekKeys (directory w1) + i)) \<and>
              (\<forall>i. (i < e \<or> e + 500 \<le> i \<and> i < e + 250000) \<and> \<not> (dpc \<le> i \<and> i < dpc + dlen) \<longrightarrow>
                 fdata (wfile w2) i = fdata (wfile w1) i) \<and>
              read_at (wfile w2) dpc (nat dlen) = ser_directoryinfo sk (directory w2) \<and>
              w2 = w1\<lparr>wfile := wfile w2,
                      keyend := e + (keyend w1 - fSeekKeys (directory w1)),
                      directory := (directory w1)\<lparr>fSeekKeys := e\<rparr>,
                      keylimit := e + 250000,
                      header := (header w1)\<lparr>fEND := e + 250000, fSeekFree := e + 250000\<rparr>\<rparr>
            else w2 = w1"
  proof (cases "keylimit w1 - keyend w1 < 200")
    case False
    then show ?thesis by (simp add: w2_def key_realloc_nf)
  next
    case True
    let ?d = "(directory w1)\<lparr>fSeekKeys := e\<rparr>"
    have f2: "wfile w2 = write_at (copy_slice (resize (wfile w1) (e + 250000)) e
                  (fSeekKeys (directory w1)) 500) dpc (ser_directoryinfo sk ?d)"
      using True by (simp add: w2_def key_realloc_nf ex e_def dpc_def)
    have a: "\<forall>i. 0 \<le> i \<and> i < 500 \<longrightarrow>
                 fdata (wfile w2) (e + i) = fdata (wfile w1) (fSeekKeys (directory w1) + i)"
      using sk dp by (auto simp: f2 fdata_write_at fdata_copy_slice fdata_resize dl)
    have b: "\<forall>i. (i < e \<or> e + 500 \<le> i \<and> i < e + 250000) \<and> \<not> (dpc \<le> i \<and> i < dpc + dlen) \<longrightarrow>
                 fdata (wfile w2) i = fdata (wfile w1) i"
      by (auto simp: f2 fdata_write_at fdata_copy_slice fdata_resize dl)
    have d2: "directory w2 = ?d" using True by (simp add: w2_def key_realloc_nf e_def)
    have "nat dlen = length (ser_directoryinfo sk ?d)" using dl[of ?d] by simp
    then have c: "read_at (wfile w2) dpc (nat dlen) = ser_directoryinfo sk (directory w2)"
      unfolding f2 d2 by (rule read_at_write_at_same)
    have d: "w2 = w1\<lparr>wfile := wfile w2,
                      keyend := e + (keyend w1 - fSeekKeys (directory w1)),
                      directory := (directory w1)\<lparr>fSeekKeys := e\<rparr>,
                      keylimit := e + 250000,
                      header := (header w1)\<lparr>fEND := e + 250000, fSeekFree := e + 250000\<rparr>\<rparr>"
      using True by (simp add: w2_def key_realloc_nf ex e_def algebra_simps)
    from True a b c d show ?thesis by simp
  qed
  then show ?thesis
    unfolding Let_def w_def[symmetric] w1_def[symmetric] w2_def[symmetric] e_def[symmetric]
      dpc_def[symmetric] .
qed

lemma ex_run1: "run_writer ex_sink ''/tmp/a.root'' [(ex_long_name, TObjString ''one'')] = ex_w1"
  by (simp add: run_writer_def ex_w1_def ex_w0_def)

text \<open>The second insert of the example: 143 bytes are left, and the key list moves to 1619.\<close>

theorem key_realloc_effect_witness:
  "(\<forall>d. int (length (ser_directoryinfo ex_sink d)) = 30) \<and>
   (let w1 = fst (place_object ex_sink (ex_w1\<lparr>cursor := fEND (header ex_w1)\<rparr>) ''b'' ''two'');
        w2 = key_realloc ex_sink w1
    in keylimit w1 - keyend w1 < 200 \<and> fEND (header w1) = 1619 \<and>
       fSeekKeys (directory w1) = 742 \<and> keyend w1 = 1099 \<and>
       fSeekKeys (directory w2) = 1619 \<and> keyend w2 = 1976 \<and> keylimit w2 = 251619 \<and>
       fEND (header w2) = 251619 \<and> fSeekFree (header w2) = 251619 \<and>
       read_at (wfile w2) 148 30 = ser_directoryinfo ex_sink (directory w2) \<and>
       fdata (wfile w2) (1619 + 40) = fdata (wfile w1) (742 + 40))"
proof -
  have h: "\<forall>d. int (length (ser_directoryinfo ex_sink d)) = 30" by simp
  define w1 where "w1 = fst (place_object ex_sink (ex_w1\<lparr>cursor := fEND (header ex_w1)\<rparr>) ''b'' ''two'')"
  define w2 where "w2 = key_realloc ex_sink w1"
  have f: "keylimit w1 = 1242" "keyend w1 = 1099" "fEND (header w1) = 1619"
    "fSeekKeys (directory w1) = 742" "directory_pointcheck w1 = 148"
    by (simp_all add: w1_def place_object_nf ex_w1_fields)
  have c: "keylimit w1 - keyend w1 < 200" by (simp add: f)
  note T = key_realloc_effect[OF h, of "''/tmp/a.root''" "[(ex_long_name, TObjString ''one'')]"
      "''b''" "''two''", unfolded ex_run1 Let_def, folded w1_def, folded w2_def]
  from T have A:
    "(\<forall>i. 0 \<le> i \<and> i < 500 \<longrightarrow>
        fdata (wfile w2) (fEND (header w1) + i) = fdata (wfile w1) (fSeekKeys (directory w1) + i)) \<and>
     (\<forall>i. (i < fEND (header w1) \<or> fEND (header w1) + 500 \<le> i \<and> i < fEND (header w1) + 250000) \<and>
          \<not> (directory_pointcheck w1 \<le> i \<and> i < directory_pointcheck w1 + 30) \<longrightarrow>
        fdata (wfile w2) i = fdata (wfile w1) i) \<and>
     read_at (wfile w2) (directory_pointcheck w1) (nat 30) = ser_directoryinfo ex_sink (directory w2) \<and>
     w2 = w1\<lparr>wfile := wfile w2,
             keyend := fEND (header w1) + (keyend w1 - fSeekKeys (directory w1)),
             directory := (directory w1)\<lparr>fSeekKeys := fEND (header w1)\<rparr>,
             keylimit := fEND (header w1) + 250000,
             header := (header w1)\<lparr>fEND := fEND (header w1) + 250000,
                                   fSeekFree := fEND (header w1) + 250000\<rparr>\<rparr>"
    unfolding if_P[OF c] .
  from A have A1: "\<forall>i. 0 \<le> i \<and> i < 500 \<longrightarrow>
        fdata (wfile w2) (fEND (header w1) + i) = fdata (wfile w1) (fSeekKeys (directory w1) + i)"
    by (rule conjunct1)
  from A have A3: "read_at (wfile w2) (directory_pointcheck w1) (nat 30) =
      ser_directoryinfo ex_sink (directory w2)"
    by blast
  from A have A4: "w2 = w1\<lparr>wfile := wfile w2,
             keyend := fEND (header w1) + (keyend w1 - fSeekKeys (directory w1)),
             directory := (directory w1)\<lparr>fSeekKeys := fEND (header w1)\<rparr>,
             keylimit := fEND (header w1) + 250000,
             header := (header w1)\<lparr>fEND := fEND (header w1) + 250000,
                                   fSeekFree := fEND (header w1) + 250000\<rparr>\<rparr>"
    by blast
  have g1: "fSeekKeys (directory w2) = 1619" by (subst A4) (simp add: f)
  have g2: "keyend w2 = 1976" by (subst A4) (simp add: f)
  have g3: "keylimit w2 = 251619" by (subst A4) (simp add: f)
  have g4: "fEND (header w2) = 251619" by (subst A4) (simp add: f)
  have g5: "fSeekFree (header w2) = 251619" by (subst A4) (simp add: f)
  have g6: "read_at (wfile w2) 148 30 = ser_directoryinfo ex_sink (directory w2)"
    using A3 by (simp add: f)
  have g7: "fdata (wfile w2) (1619 + 40) = fdata (wfile w1) (742 + 40)"
    using A1[rule_format, of 40] by (simp add: f)
  have "keylimit w1 - keyend w1 < 200 \<and> fEND (header w1) = 1619 \<and>
       fSeekKeys (directory w1) = 742 \<and> keyend w1 = 1099 \<and>
       fSeekKeys (directory w2) = 1619 \<and> keyend w2 = 1976 \<and> keylimit w2 = 251619 \<and>
       fEND (header w2) = 251619 \<and> fSeekFree (header w2) = 251619 \<and>
       read_at (wfile w2) 148 30 = ser_directoryinfo ex_sink (directory w2) \<and>
       fdata (wfile w2) (1619 + 40) = fdata (wfile w1) (742 + 40)"
    using c f g1 g2 g3 g4 g5 g6 g7 by blast
  then have "let w1 = fst (place_object ex_sink (ex_w1\<lparr>cursor := fEND (header ex_w1)\<rparr>) ''b'' ''two'');
        w2 = key_realloc ex_sink w1
    in keylimit w1 - keyend w1 < 200 \<and> fEND (header w1) = 1619 \<and>
       fSeekKeys (directory w1) = 742 \<and> keyend w1 = 1099 \<and>
       fSeekKeys (directory w2) = 1619 \<and> keyend w2 = 1976 \<and> keylimit w2 = 251619 \<and>
       fEND (header w2) = 251619 \<and> fSeekFree (header w2) = 251619 \<and>
       read_at (wfile w2) 148 30 = ser_directoryinfo ex_sink (directory w2) \<and>
       fdata (wfile w2) (1619 + 40) = fdata (wfile w1) (742 + 40)"
    unfolding Let_def w2_def w1_def .
  with h show ?thesis by (rule conjI)
qed

subsection \<open>Monotone header fields, inserts of other values\<close>

text \<open>The example sink, through the second insert of the example.\<close>

theorem header_never_decreases_witness:
  "fSeekFree (Header_new ex_sink (basename ''/tmp/a.root'') 0) \<le> fBEGIN (Header_new ex_sink (basename ''/tmp/a.root'') 0) \<and>
   fEND (Header_new ex_sink (basename ''/tmp/a.root'') 0) \<le> fBEGIN (Header_new ex_sink (basename ''/tmp/a.root'') 0) \<and>
   le_header (Header_new ex_sink (basename ''/tmp/a.root'') 0) (header (new_writer ex_sink ''/tmp/a.root'')) \<and>
   successively le_header
     (map header (ex_w1 # insert_stages ex_sink ex_w1 ''b'' (TObjString ''two''))) \<and>
   fEND (header ex_w1) = 1619 \<and> fEND (header ex_w2) = 251619"
proof -
  have h1: "fSeekFree (Header_new ex_sink (basename ''/tmp/a.root'') 0) \<le> fBEGIN (Header_new ex_sink (basename ''/tmp/a.root'') 0)"
    by simp
  have h2: "fEND (Header_new ex_sink (basename ''/tmp/a.root'') 0) \<le> fBEGIN (Header_new ex_sink (basename ''/tmp/a.root'') 0)"
    by simp
  from header_never_decreases[OF h1 h2]
  have a: "le_header (Header_new ex_sink (basename ''/tmp/a.root'') 0) (header (new_writer ex_sink ''/tmp/a.root''))"
    and b: "successively le_header
     (map header (run_writer ex_sink ''/tmp/a.root'' [(ex_long_name, TObjString ''one'')] #
        insert_stages ex_sink (run_writer ex_sink ''/tmp/a.root'' [(ex_long_name, TObjString ''one'')]) ''b'' (TObjString ''two'')))"
    by blast+
  have c: "fEND (header ex_w1) = 1619" by (simp add: ex_w1_fields)
  have d: "fEND (header ex_w2) = 251619" by (simp add: ex_w2_fields)
  from h1 h2 a b[unfolded ex_run1] c d show ?thesis by blast
qed

lemma setitem_other_fields:
  "nkeys (setitem sk w k OtherItem) = nkeys w + 1"
  "keyend (setitem sk w k OtherItem) = keyend w"
  "header (setitem sk w k OtherItem) = header w"
  "streamers (setitem sk w k OtherItem) = streamers w"
  "flushes (setitem sk w k OtherItem) = flushes w + 1"
  by (simp_all add: setitem_def insert_stages_def update_counts_nf update_header_nf Let_def)

lemma new_writer_fresh:
  "nkeys (new_writer sk fn) = 0" "streamers (new_writer sk fn) = []" "flushes (new_writer sk fn) = 0"
  by (simp_all add: new_writer_def Let_def split_def)

lemma run_other_items:
  "nkeys (run_writer sk fn (map (\<lambda>k. (k, OtherItem)) ks)) = int (length ks) \<and>
   keyend (run_writer sk fn (map (\<lambda>k. (k, OtherItem)) ks)) = keyend (new_writer sk fn) \<and>
   header (run_writer sk fn (map (\<lambda>k. (k, OtherItem)) ks)) = header (new_writer sk fn) \<and>
   streamers (run_writer sk fn (map (\<lambda>k. (k, OtherItem)) ks)) = [] \<and>
   flushes (run_writer sk fn (map (\<lambda>k. (k, OtherItem)) ks)) = length ks"
proof (induction ks rule: rev_induct)
  case Nil
  show ?case by (simp add: run_writer_def new_writer_fresh)
next
  case (snoc k ks)
  then show ?case by (simp add: run_writer_snoc setitem_other_fields)
qed

text \<open>
  Claim C9. An insert of a value that is not a \<open>TObjString\<close> is a total function of
  the writer (no statement on its path raises). It writes the incremented
  counter at \<open>head_key_end\<close>, the directory, the head key and the header, and
  nothing else: no object and no key, \<open>keyend\<close> and the header fields stay as they
  are; \<open>nkeys\<close> goes up by one and the file is flushed once. So after \<open>n\<close> such
  inserts into a new file the key count is \<open>n\<close> while the key list holds no key
  and no type has a streamer.
\<close>

theorem setitem_other_item:
  "setitem sk w keyname OtherItem =
     w\<lparr>cursor := fEND (header w),
       wfile :=
         write_at
           (write_at
              (write_at
                 (write_at (wfile w) (head_key_end w) (be32 (nkeys w + 1)))
                 (directory_pointcheck w)
                 (ser_directoryinfo sk ((directory w)\<lparr>fNbytesKeys := fEND (header w) - keyend w\<rparr>)))
              (head_key_pointcheck w)
              (ser_key sk ((head_key w)\<lparr>fNbytes := fEND (header w) - keyend w,
                 fKeylen := head_key_end w - head_key_pointcheck w,
                 fObjlen := fEND (header w) - keyend w - (head_key_end w - head_key_pointcheck w)\<rparr>)))
           0 (ser_header sk (bytename w) (header w)),
       nkeys := nkeys w + 1,
       directory := (directory w)\<lparr>fNbytesKeys := fEND (header w) - keyend w\<rparr>,
       head_key := (head_key w)\<lparr>fNbytes := fEND (header w) - keyend w,
                 fKeylen := head_key_end w - head_key_pointcheck w,
                 fObjlen := fEND (header w) - keyend w - (head_key_end w - head_key_pointcheck w)\<rparr>,
       flushes := flushes w + 1\<rparr> \<and>
   nkeys (run_writer sk fn (map (\<lambda>k. (k, OtherItem)) ks)) = int (length ks) \<and>
   keyend (run_writer sk fn (map (\<lambda>k. (k, OtherItem)) ks)) = keyend (new_writer sk fn) \<and>
   header (run_writer sk fn (map (\<lambda>k. (k, OtherItem)) ks)) = header (new_writer sk fn) \<and>
   streamers (run_writer sk fn (map (\<lambda>k. (k, OtherItem)) ks)) = [] \<and>
   flushes (run_writer sk fn (map (\<lambda>k. (k, OtherItem)) ks)) = length ks"
  using setitem_OtherItem_nf[of sk w keyname] run_other_items[of sk fn ks] by (rule conjI)

end
